theory Spec2Isabelle
  imports Complex_Main
begin

section \<open>The document as the injected script sees it\<close>

text \<open>
  The content script generated by \<open>generateContentScript\<close> works on the live document
  through selector queries, attribute reads and writes, inline style writes and
  \<open>el.remove()\<close>. The document is modelled as a forest of nodes. An element carries
  its identity, its tag, its attributes, the inline style properties the script writes,
  and the two layout answers the script asks the browser for: whether \<open>offsetParent\<close>
  is non-null and the numbers of \<open>getBoundingClientRect()\<close>. Layout answers are inputs
  of the model: they are recorded on the node and say what the browser answers when the
  script asks. The recorded \<open>offsetParent\<close> is the answer as far as the style sheets
  and the position of the element decide it; an inline \<open>display: none\<close> on the
  element or on an ancestor makes the browser answer null whatever is recorded (see
  \<open>has_offsetParent\<close> below).

  An inline style value is either a text or the text built by \<open>height + 'px'\<close> from a
  number; \<open>CssText []\<close> is the empty string that clears a property.
\<close>

datatype css = CssText string | CssPx real

text \<open>The entry \<open>collapsedData.get(msg)\<close> of the virtualizer's WeakMap: \<open>{ height, hidden }\<close>.
  A WeakMap keyed by node identity is a hidden field of the node, absent until set.\<close>

record cdata =
  height :: real
  hidden :: bool

record elem =
  nid :: nat
  tag :: string
  attrs :: "(string \<times> string) list"
  offsetParent :: bool
  rect_top :: real
  rect_bottom :: real
  rect_height :: real
  style_height :: css
  style_overflow :: css
  style_visibility :: css
  style_display :: css
  style_contentVisibility :: css
  style_containIntrinsicSize :: css
  collapsedData :: "cdata option"

datatype node = Element elem "node list" | Text string

definition attr :: "elem \<Rightarrow> string \<Rightarrow> string option" where
  "attr e n = map_of (attrs e) n"

fun set_attr :: "string \<Rightarrow> string \<Rightarrow> (string \<times> string) list \<Rightarrow> (string \<times> string) list" where
  "set_attr n v [] = [(n, v)]"
| "set_attr n v ((k, x) # r) = (if k = n then (n, v) # r else (k, x) # set_attr n v r)"

definition setAttribute :: "string \<Rightarrow> string \<Rightarrow> elem \<Rightarrow> elem" where
  "setAttribute n v e = e\<lparr>attrs := set_attr n v (attrs e)\<rparr>"

text \<open>The attribute selectors \<open>[a^="p"]\<close> (value starts with) and \<open>[a*="p"]\<close> (value contains).\<close>

fun starts_with :: "string \<Rightarrow> string \<Rightarrow> bool" where
  "starts_with [] s = True"
| "starts_with (p # ps) [] = False"
| "starts_with (p # ps) (c # cs) = (p = c \<and> starts_with ps cs)"

fun contains_str :: "string \<Rightarrow> string \<Rightarrow> bool" where
  "contains_str p [] = (p = [])"
| "contains_str p (c # cs) = (starts_with p (c # cs) \<or> contains_str p cs)"

text \<open>An element as \<open>document.createElement(tag)\<close> leaves it, with the given identity and
  attributes, laid out, and no inline style.\<close>

definition mk_elem :: "nat \<Rightarrow> string \<Rightarrow> (string \<times> string) list \<Rightarrow> elem" where
  "mk_elem i t as = \<lparr>nid = i, tag = t, attrs = as, offsetParent = True,
     rect_top = 0, rect_bottom = 0, rect_height = 0,
     style_height = CssText [], style_overflow = CssText [], style_visibility = CssText [],
     style_display = CssText [], style_contentVisibility = CssText [],
     style_containIntrinsicSize = CssText [], collapsedData = None\<rparr>"

text \<open>
  What the browser answers for \<open>el.offsetParent\<close>: non-null when the recorded answer
  is non-null and neither the element nor an ancestor has the inline style
  \<open>display: none\<close>; \<open>hid\<close> says that an ancestor has it.
\<close>

definition shown :: "elem \<Rightarrow> bool" where
  "shown e = (style_display e \<noteq> CssText ''none'')"

definition has_offsetParent :: "bool \<Rightarrow> elem \<Rightarrow> bool" where
  "has_offsetParent hid e = (offsetParent e \<and> \<not> hid \<and> shown e)"

text \<open>\<open>querySelectorAll(sel).forEach(el => ...)\<close> where the body only writes to \<open>el\<close>
  itself: every element of the document is visited once and rewritten.\<close>

fun for_each_elem :: "(elem \<Rightarrow> elem) \<Rightarrow> node list \<Rightarrow> node list" where
  "for_each_elem f [] = []"
| "for_each_elem f (Text t # ns) = Text t # for_each_elem f ns"
| "for_each_elem f (Element e ks # ns) = Element (f e) (for_each_elem f ks) # for_each_elem f ns"

text \<open>All elements of a document, in document order.\<close>

fun elements :: "node list \<Rightarrow> elem list" where
  "elements [] = []"
| "elements (Text t # ns) = elements ns"
| "elements (Element e ks # ns) = e # elements ks @ elements ns"

section \<open>Input handler throttle (\<open>throttleHandlers\<close>)\<close>

text \<open>
  JavaScript values that are only passed along (\<open>this\<close>, event objects) are identities.
  A \<open>call\<close> is one execution \<open>listener.apply(lastThis, lastArgs)\<close> of the host
  callback; \<open>None\<close> stands for \<open>null\<close>. The \<open>try\<close>/\<open>catch\<close> around it means that
  nothing the callback does changes what the wrapper does next.
\<close>

type_synonym jsval = nat

record call =
  fn :: nat
  this_arg :: "jsval option"
  args :: "jsval list option"

text \<open>
  The variables closed over by one \<open>throttled\<close> function: \<open>listener\<close> and the four
  \<open>let\<close> variables. A pending timer is recorded by its due time, the time of the
  \<open>setTimeout\<close> call plus the delay; times are \<open>performance.now()\<close> readings in
  milliseconds, taken as real numbers. \<open>setTimeout\<close> takes its delay as a whole number
  of milliseconds and drops the fraction of the \<open>remaining\<close> it is given, so the timer
  may run up to one millisecond before the end of the window.
\<close>

record throttle =
  listener :: nat
  timeout :: "real option"
  lastArgs :: "jsval list option"
  lastThis :: "jsval option"
  lastRun :: real

definition THROTTLE_MS :: real where
  "THROTTLE_MS = 32"

text \<open>The delay \<open>setTimeout\<close> makes of a positive number of milliseconds.\<close>

definition whole_ms :: "real \<Rightarrow> real" where
  "whole_ms d = of_int \<lfloor>d\<rfloor>"


definition new_throttle :: "nat \<Rightarrow> throttle" where
  "new_throttle f = \<lparr>listener = f, timeout = None, lastArgs = None, lastThis = None, lastRun = 0\<rparr>"

text \<open>The body of \<open>throttled\<close>, called with \<open>this = th\<close> and arguments \<open>as\<close> when
  \<open>performance.now()\<close> reads \<open>now\<close>. It returns the new closure state and the execution
  of the callback it performed, if any.\<close>

definition throttled :: "real \<Rightarrow> jsval \<Rightarrow> jsval list \<Rightarrow> throttle \<Rightarrow> throttle \<times> call option" where
  "throttled now th as t =
     (let t1 = t\<lparr>lastArgs := Some as, lastThis := Some th\<rparr>;
          remaining = THROTTLE_MS - (now - lastRun t1)
      in if remaining \<le> 0 then
           (t1\<lparr>timeout := None, lastRun := now\<rparr>,
            Some \<lparr>fn = listener t1, this_arg = lastThis t1, args = lastArgs t1\<rparr>)
         else if timeout t1 = None then
           (t1\<lparr>timeout := Some (now + whole_ms remaining)\<rparr>, None)
         else (t1, None))"


























subsection \<open>The patched \<open>EventTarget.prototype.addEventListener\<close>\<close>

text \<open>
  What a caller may pass as \<open>listener\<close>: a function, an object with \<open>handleEvent\<close>, or
  \<open>null\<close>; \<open>typeof listener === 'function'\<close> holds for the first only. What reaches
  the browser's own \<open>addEventListener\<close> is either the caller's value or a \<open>throttled\<close>
  closure, identified by its position in the list of closures created so far.

  The browser's listener list follows the DOM standard: a registration is a target, a
  type, a callback and options; adding is ignored for a \<open>null\<close> callback and for a
  registration whose target, type, callback and capture flag are already present;
  \<open>removeEventListener\<close>, which the script does not patch, removes the registration
  with the given target, type, callback and capture flag.
\<close>

datatype listener_arg = Function nat | HandlerObject nat | Null

datatype callback = Host listener_arg | Throttled nat

record options =
  opt_capture :: bool
  opt_once :: bool
  opt_passive :: bool

record registration =
  target :: nat
  etype :: string
  callback :: callback
  opts :: options

record page =
  listeners :: "registration list"
  closures :: "throttle list"

definition THROTTLE_EVENTS :: "string list" where
  "THROTTLE_EVENTS = [''input'', ''paste'', ''keydown'', ''keyup'', ''keypress'']"

fun is_function :: "listener_arg \<Rightarrow> bool" where
  "is_function (Function f) = True"
| "is_function (HandlerObject h) = False"
| "is_function Null = False"

definition same_listener :: "nat \<Rightarrow> string \<Rightarrow> callback \<Rightarrow> options \<Rightarrow> registration \<Rightarrow> bool" where
  "same_listener tgt ty cb os r =
     (target r = tgt \<and> etype r = ty \<and> callback r = cb \<and> opt_capture (opts r) = opt_capture os)"

definition originalAddEventListener ::
    "nat \<Rightarrow> string \<Rightarrow> callback \<Rightarrow> options \<Rightarrow> registration list \<Rightarrow> registration list" where
  "originalAddEventListener tgt ty cb os rs =
     (if cb = Host Null \<or> list_ex (same_listener tgt ty cb os) rs then rs
      else rs @ [\<lparr>target = tgt, etype = ty, callback = cb, opts = os\<rparr>])"

definition removeEventListener ::
    "nat \<Rightarrow> string \<Rightarrow> listener_arg \<Rightarrow> options \<Rightarrow> page \<Rightarrow> page" where
  "removeEventListener tgt ty l os p =
     p\<lparr>listeners := filter (\<lambda>r. \<not> same_listener tgt ty (Host l) os r) (listeners p)\<rparr>"

text \<open>The replacement function, called on target \<open>tgt\<close> (its \<open>this\<close>). The first
  equation is the branch \<open>THROTTLE_EVENTS.has(type) && typeof listener === 'function'\<close>
  and its fall-through; the second is every other listener.\<close>

fun addEventListener :: "nat \<Rightarrow> string \<Rightarrow> listener_arg \<Rightarrow> options \<Rightarrow> page \<Rightarrow> page" where
  "addEventListener tgt ty (Function f) os p =
     (if ty \<in> set THROTTLE_EVENTS then
        p\<lparr>closures := closures p @ [new_throttle f],
          listeners := originalAddEventListener tgt ty (Throttled (length (closures p))) os (listeners p)\<rparr>
      else p\<lparr>listeners := originalAddEventListener tgt ty (Host (Function f)) os (listeners p)\<rparr>)"
| "addEventListener tgt ty l os p =
     p\<lparr>listeners := originalAddEventListener tgt ty (Host l) os (listeners p)\<rparr>"

text \<open>A registration on a page where the script is not installed.\<close>

definition unpatched_addEventListener :: "nat \<Rightarrow> string \<Rightarrow> listener_arg \<Rightarrow> options \<Rightarrow> page \<Rightarrow> page" where
  "unpatched_addEventListener tgt ty l os p =
     p\<lparr>listeners := originalAddEventListener tgt ty (Host l) os (listeners p)\<rparr>"

text \<open>The browser calling the \<open>k\<close>-th wrapper.\<close>

definition call_throttled :: "nat \<Rightarrow> real \<Rightarrow> jsval \<Rightarrow> jsval list \<Rightarrow> page \<Rightarrow> page \<times> call option" where
  "call_throttled k now th as p =
     (let r = throttled now th as (closures p ! k)
      in (p\<lparr>closures := (closures p)[k := fst r]\<rparr>, snd r))"

text \<open>Every registered wrapper is one of the closures created so far; this holds on
  the empty page and is kept by every registration, removal and call.\<close>

definition wf_page :: "page \<Rightarrow> bool" where
  "wf_page p = list_all (\<lambda>r. case callback r of Throttled k \<Rightarrow> k < length (closures p) | Host l \<Rightarrow> True)
     (listeners p)"

definition empty_page :: page where
  "empty_page = \<lparr>listeners = [], closures = []\<rparr>"

definition default_options :: options where
  "default_options = \<lparr>opt_capture = False, opt_once = False, opt_passive = False\<rparr>"

section \<open>Periodic DOM cleanup (\<open>domCleanup\<close>)\<close>

text \<open>The selectors of \<open>cleanup\<close>: \<open>[role="tooltip"], [data-radix-popper-content-wrapper]\<close>,
  \<open>[data-state="open"]\<close>, \<open>style:empty\<close> (no element child and no text of non-zero
  length) and \<open>[data-headlessui-state=""]\<close>.\<close>

definition is_tooltip :: "elem \<Rightarrow> bool" where
  "is_tooltip e = (attr e ''role'' = Some ''tooltip'' \<or>
     attr e ''data-radix-popper-content-wrapper'' \<noteq> None)"

definition is_open :: "elem \<Rightarrow> bool" where
  "is_open e = (attr e ''data-state'' = Some ''open'')"

fun has_content :: "node \<Rightarrow> bool" where
  "has_content (Element e ks) = True"
| "has_content (Text t) = (t \<noteq> [])"

definition is_empty_style :: "elem \<Rightarrow> node list \<Rightarrow> bool" where
  "is_empty_style e ks = (tag e = ''style'' \<and> \<not> list_ex has_content ks)"

definition is_orphan_overlay :: "elem \<Rightarrow> node list \<Rightarrow> bool" where
  "is_orphan_overlay e ks = (attr e ''data-headlessui-state'' = Some [])"

text \<open>
  Each of the three passes takes a static list from \<open>querySelectorAll\<close> and calls
  \<open>el.remove()\<close> on entries of it. \<open>remove()\<close> detaches the element with its subtree,
  so a later entry that lies inside a detached subtree leaves the document as it is.
  On the forest, a pass therefore deletes every subtree whose root is selected and
  passes its own test, deciding each root on the document as it was when the pass began.

  First pass: a tooltip or popper wrapper is removed when \<open>offsetParent\<close> is null and
  \<open>closest('[data-state="open"]')\<close> finds nothing; \<open>opn\<close> says that an ancestor is open,
  \<open>hid\<close> that an ancestor has the inline style \<open>display: none\<close>.
\<close>

fun remove_tooltips :: "bool \<Rightarrow> bool \<Rightarrow> node list \<Rightarrow> node list" where
  "remove_tooltips hid opn [] = []"
| "remove_tooltips hid opn (Text t # ns) = Text t # remove_tooltips hid opn ns"
| "remove_tooltips hid opn (Element e ks # ns) =
     (if is_tooltip e \<and> \<not> has_offsetParent hid e \<and> \<not> (opn \<or> is_open e)
      then remove_tooltips hid opn ns
      else Element e (remove_tooltips (hid \<or> \<not> shown e) (opn \<or> is_open e) ks)
             # remove_tooltips hid opn ns)"

text \<open>Second and third pass: \<open>querySelectorAll(sel).forEach(el => el.remove())\<close>.\<close>

fun remove_where :: "(elem \<Rightarrow> node list \<Rightarrow> bool) \<Rightarrow> node list \<Rightarrow> node list" where
  "remove_where P [] = []"
| "remove_where P (Text t # ns) = Text t # remove_where P ns"
| "remove_where P (Element e ks # ns) =
     (if P e ks then remove_where P ns
      else Element e (remove_where P ks) # remove_where P ns)"

text \<open>The three passes on the children of a node whose ancestors are hidden or not and
  open or not, and \<open>cleanup()\<close> itself, which starts at the document.\<close>

definition cleanup_under :: "bool \<Rightarrow> bool \<Rightarrow> node list \<Rightarrow> node list" where
  "cleanup_under hid opn d =
     remove_where is_orphan_overlay (remove_where is_empty_style (remove_tooltips hid opn d))"

definition cleanup :: "node list \<Rightarrow> node list" where
  "cleanup d = cleanup_under False False d"

text \<open>Whether a sweep removes an element with children \<open>ks\<close> whose ancestors it keeps.\<close>

definition janitor_removes :: "bool \<Rightarrow> bool \<Rightarrow> elem \<Rightarrow> node list \<Rightarrow> bool" where
  "janitor_removes hid opn e ks =
     ((is_tooltip e \<and> \<not> has_offsetParent hid e \<and> \<not> (opn \<or> is_open e)) \<or>
      is_empty_style e (remove_tooltips (hid \<or> \<not> shown e) (opn \<or> is_open e) ks) \<or>
      is_orphan_overlay e
        (remove_where is_empty_style (remove_tooltips (hid \<or> \<not> shown e) (opn \<or> is_open e) ks)))"

text \<open>Documents in which a pass finds nothing to remove.\<close>

fun no_tooltip_target :: "bool \<Rightarrow> bool \<Rightarrow> node list \<Rightarrow> bool" where
  "no_tooltip_target hid opn [] = True"
| "no_tooltip_target hid opn (Text t # ns) = no_tooltip_target hid opn ns"
| "no_tooltip_target hid opn (Element e ks # ns) =
     (\<not> (is_tooltip e \<and> \<not> has_offsetParent hid e \<and> \<not> (opn \<or> is_open e)) \<and>
      no_tooltip_target (hid \<or> \<not> shown e) (opn \<or> is_open e) ks \<and> no_tooltip_target hid opn ns)"

fun none_where :: "(elem \<Rightarrow> node list \<Rightarrow> bool) \<Rightarrow> node list \<Rightarrow> bool" where
  "none_where P [] = True"
| "none_where P (Text t # ns) = none_where P ns"
| "none_where P (Element e ks # ns) = (\<not> P e ks \<and> none_where P ks \<and> none_where P ns)"

text \<open>Documents in which every \<open>style\<close> element holds text nodes only, as style sheets
  written in markup do.\<close>

fun is_text :: "node \<Rightarrow> bool" where
  "is_text (Text t) = True"
| "is_text (Element e ks) = False"

fun styles_hold_text :: "node list \<Rightarrow> bool" where
  "styles_hold_text [] = True"
| "styles_hold_text (Text t # ns) = styles_hold_text ns"
| "styles_hold_text (Element e ks # ns) =
     ((if tag e = ''style'' then list_all is_text ks else styles_hold_text ks) \<and> styles_hold_text ns)"

text \<open>A \<open>style\<close> element whose only child is an element that the third pass removes,
  and a document with one node of each kind the sweep looks for.\<close>

definition nested_style_doc :: "node list" where
  "nested_style_doc =
     [Element (mk_elem 1 ''style'' [])
        [Element (mk_elem 2 ''div'' [(''data-headlessui-state'', [])]) []]]"

definition debris_doc :: "node list" where
  "debris_doc =
     [Element ((mk_elem 1 ''div'' [(''role'', ''tooltip'')])\<lparr>offsetParent := False\<rparr>) [],
      Element (mk_elem 2 ''style'' []) [],
      Element (mk_elem 3 ''style'' []) [Text ''p { margin: 0 }''],
      Element (mk_elem 4 ''div'' [(''data-headlessui-state'', [])]) [],
      Element (mk_elem 5 ''main'' []) [Text ''hello'']]"

section \<open>Message virtualization (\<open>virtualizeMessages\<close>)\<close>

definition VIEWPORT_MARGIN :: real where
  "VIEWPORT_MARGIN = 1500"

record window =
  scrollY :: real
  innerHeight :: real

text \<open>The selector \<open>[data-testid^="conversation-turn-"]\<close> and \<open>getMessageContainers()\<close>:
  the matching elements in document order, each with its children.\<close>

definition is_message :: "elem \<Rightarrow> bool" where
  "is_message e = (case attr e ''data-testid'' of None \<Rightarrow> False
                   | Some v \<Rightarrow> starts_with ''conversation-turn-'' v)"

fun getMessageContainers :: "node list \<Rightarrow> (elem \<times> node list) list" where
  "getMessageContainers [] = []"
| "getMessageContainers (Text t # ns) = getMessageContainers ns"
| "getMessageContainers (Element e ks # ns) =
     (if is_message e then [(e, ks)] else []) @ getMessageContainers ks @ getMessageContainers ns"

text \<open>\<open>Array.from(msg.children).forEach(child => { child.style.display = v })\<close>:
  \<open>children\<close> are the element children.\<close>

fun set_children_display :: "css \<Rightarrow> node list \<Rightarrow> node list" where
  "set_children_display v [] = []"
| "set_children_display v (Text t # ns) = Text t # set_children_display v ns"
| "set_children_display v (Element e ks # ns) =
     Element (e\<lparr>style_display := v\<rparr>) ks # set_children_display v ns"

text \<open>
  The callback of \<open>messages.forEach((msg, i) => ...)\<close>, for the window \<open>w\<close> and
  \<open>n = messages.length\<close>. The message is the element with its children; the rectangle
  is the one recorded on the element. The comparison \<open>i >= messages.length - 3\<close> is
  taken on integers, since the right side is negative for a short list.
\<close>

definition visit :: "window \<Rightarrow> nat \<Rightarrow> nat \<Rightarrow> elem \<times> node list \<Rightarrow> elem \<times> node list" where
  "visit w n i msg =
     (let e = fst msg; ks = snd msg;
          viewportTop = scrollY w - VIEWPORT_MARGIN;
          viewportBottom = scrollY w + innerHeight w + VIEWPORT_MARGIN
      in
      if int i \<ge> int n - 3 then
        (case collapsedData e of
           None \<Rightarrow> (e, ks)
         | Some data \<Rightarrow>
             (let e1 = e\<lparr>style_height := CssText [], style_overflow := CssText [],
                        style_visibility := CssText []\<rparr>
              in if hidden data
                 then (e1\<lparr>collapsedData := Some (data\<lparr>hidden := False\<rparr>)\<rparr>,
                       set_children_display (CssText []) ks)
                 else (e1, ks)))
      else
        (let absTop = rect_top e + scrollY w;
             absBottom = rect_bottom e + scrollY w
         in
         if absBottom < viewportTop \<or> absTop > viewportBottom then
           (if (case collapsedData e of None \<Rightarrow> True | Some data \<Rightarrow> \<not> hidden data)
            then (e\<lparr>collapsedData := Some \<lparr>height = rect_height e, hidden = True\<rparr>,
                    style_height := CssPx (rect_height e),
                    style_overflow := CssText ''hidden'',
                    style_visibility := CssText ''hidden''\<rparr>,
                  set_children_display (CssText ''none'') ks)
            else (e, ks))
         else
           (case collapsedData e of
              None \<Rightarrow> (e, ks)
            | Some data \<Rightarrow>
                if hidden data
                then (e\<lparr>style_height := CssText [], style_overflow := CssText [],
                        style_visibility := CssText [],
                        collapsedData := Some (data\<lparr>hidden := False\<rparr>)\<rparr>,
                      set_children_display (CssText []) ks)
                else (e, ks))))"

text \<open>
  \<open>virtualizeCheck()\<close> on the list that \<open>getMessageContainers()\<close> returned. Each entry
  is rewritten by its own callback; conversation turns are siblings, so no entry is a
  child of another entry.
\<close>

definition virtualizeCheck :: "window \<Rightarrow> (elem \<times> node list) list \<Rightarrow> (elem \<times> node list) list" where
  "virtualizeCheck w messages =
     (if length messages < 10 then messages
      else map (\<lambda>(i, msg). visit w (length messages) i msg) (enumerate 0 messages))"

text \<open>An element is Collapsed when its WeakMap entry says \<open>hidden\<close>; the test of the
  callback for "entirely outside the extended viewport"; the inline \<open>display\<close> of the
  element children; the browser reporting a new rectangle for an element; and message
  containers as nodes of a document.\<close>

definition is_collapsed :: "elem \<Rightarrow> bool" where
  "is_collapsed e = (case collapsedData e of None \<Rightarrow> False | Some data \<Rightarrow> hidden data)"

definition far_from_viewport :: "window \<Rightarrow> elem \<Rightarrow> bool" where
  "far_from_viewport w e =
     (rect_bottom e + scrollY w < scrollY w - VIEWPORT_MARGIN \<or>
      rect_top e + scrollY w > scrollY w + innerHeight w + VIEWPORT_MARGIN)"

fun children_display :: "node list \<Rightarrow> css list" where
  "children_display [] = []"
| "children_display (Text t # ns) = children_display ns"
| "children_display (Element e ks # ns) = style_display e # children_display ns"

definition relayout :: "real \<Rightarrow> real \<Rightarrow> real \<Rightarrow> elem \<Rightarrow> elem" where
  "relayout t b h e = e\<lparr>rect_top := t, rect_bottom := b, rect_height := h\<rparr>"

definition as_nodes :: "(elem \<times> node list) list \<Rightarrow> node list" where
  "as_nodes ms = map (\<lambda>(e, ks). Element e ks) ms"

text \<open>
  Concrete conversations. A turn 100 pixels high that lies 9000 pixels above the top of
  a window scrolled down by 10000 pixels; ten such turns; the same turn with an inline
  \<open>overflow: auto\<close> of the host page; the same turn carrying \<open>data-headlessui-state=""\<close>;
  the same turn with a laid-out tooltip as its child; and a conversation of ten turns
  whose last turn was collapsed while three more turns followed it.
\<close>

definition turn :: "nat \<Rightarrow> elem \<times> node list" where
  "turn k = ((mk_elem k ''article'' [(''data-testid'', ''conversation-turn-1'')])
               \<lparr>rect_top := - 9000, rect_bottom := - 8900, rect_height := 100\<rparr>, [])"

definition conversation :: "(elem \<times> node list) list" where
  "conversation = [turn 0, turn 1, turn 2, turn 3, turn 4, turn 5, turn 6, turn 7, turn 8, turn 9]"

definition scrolled_down :: window where
  "scrolled_down = \<lparr>scrollY = 10000, innerHeight = 800\<rparr>"

definition at_top :: window where
  "at_top = \<lparr>scrollY = 0, innerHeight = 800\<rparr>"

definition styled_turn :: "elem \<times> node list" where
  "styled_turn = ((fst (turn 0))\<lparr>style_overflow := CssText ''auto''\<rparr>, [])"

definition collapsed_styled :: "elem \<times> node list" where
  "collapsed_styled = visit scrolled_down 10 0 styled_turn"

definition restored_styled :: "elem \<times> node list" where
  "restored_styled = visit at_top 10 0 (relayout 1000 1100 100 (fst collapsed_styled), snd collapsed_styled)"

definition overlay_turn :: "nat \<Rightarrow> elem \<times> node list" where
  "overlay_turn k =
     ((mk_elem k ''article'' [(''data-testid'', ''conversation-turn-1''), (''data-headlessui-state'', [])])
        \<lparr>rect_top := - 9000, rect_bottom := - 8900, rect_height := 100\<rparr>, [])"

definition overlay_conversation :: "(elem \<times> node list) list" where
  "overlay_conversation = [overlay_turn 0, overlay_turn 1, overlay_turn 2, overlay_turn 3,
     overlay_turn 4, overlay_turn 5, overlay_turn 6, overlay_turn 7, overlay_turn 8, overlay_turn 9]"

definition tipped_turn :: "elem \<times> node list" where
  "tipped_turn = (fst (turn 0), [Element (mk_elem 50 ''div'' [(''role'', ''tooltip'')]) []])"

definition shortened :: "(elem \<times> node list) list" where
  "shortened = [turn 0, turn 1, turn 2, turn 3, turn 4, turn 5, turn 6, turn 7, turn 8,
     visit scrolled_down 13 9 (turn 9)]"

section \<open>Lazy code blocks (\<open>lazyCodeBlocks\<close>)\<close>

text \<open>
  An \<open>IntersectionObserverEntry\<close> as the callback reads it. The state is the document,
  the observer's set of observed targets, and two histories: the identities that
  \<open>observeCodeBlocks\<close> has registered, and the rendering-enable actions
  (\<open>pre.style.contentVisibility = 'visible'\<close>) in the order they were performed.
\<close>

record entry =
  entry_target :: nat
  isIntersecting :: bool

record lazy_state =
  page_document :: "node list"
  observed :: "nat set"
  registered :: "nat set"
  enabled :: "nat list"

text \<open>The selector \<open>pre:not([data-turbo-observed])\<close> and the body of its \<open>forEach\<close>.\<close>

definition is_new_pre :: "elem \<Rightarrow> bool" where
  "is_new_pre e = (tag e = ''pre'' \<and> attr e ''data-turbo-observed'' = None)"

definition register_pre :: "elem \<Rightarrow> elem" where
  "register_pre e =
     (if is_new_pre e
      then (setAttribute ''data-turbo-observed'' ''true'' e)
             \<lparr>style_contentVisibility := CssText ''auto'',
              style_containIntrinsicSize := CssText ''auto 100px''\<rparr>
      else e)"

definition observeCodeBlocks :: "lazy_state \<Rightarrow> lazy_state" where
  "observeCodeBlocks s =
     s\<lparr>page_document := for_each_elem register_pre (page_document s),
       observed := observed s \<union> nid ` set (filter is_new_pre (elements (page_document s))),
       registered := registered s \<union> nid ` set (filter is_new_pre (elements (page_document s)))\<rparr>"

text \<open>The \<open>IntersectionObserver\<close> callback: for each intersecting entry the target is
  made visible and unobserved.\<close>

definition show_pre :: "nat \<Rightarrow> elem \<Rightarrow> elem" where
  "show_pre k e = (if nid e = k then e\<lparr>style_contentVisibility := CssText ''visible''\<rparr> else e)"

fun on_intersection :: "entry list \<Rightarrow> lazy_state \<Rightarrow> lazy_state" where
  "on_intersection [] s = s"
| "on_intersection (en # ens) s =
     on_intersection ens
       (if isIntersecting en
        then s\<lparr>page_document := for_each_elem (show_pre (entry_target en)) (page_document s),
               observed := observed s - {entry_target en},
               enabled := enabled s @ [entry_target en]\<rparr>
        else s)"

text \<open>
  What can happen to the scheduler: the host page changes the document, the mutation
  observer's animation frame runs \<open>observeCodeBlocks\<close>, or the browser delivers a batch
  of entries. The browser and the host page are assumed to behave as follows, and a
  step that breaks an assumption is \<open>None\<close>. The browser queues an entry only for a
  target that is observed and hands all queued entries to the callback together, so
  every entry of a batch names a target that is observed when the batch is delivered; a
  batch may hold several entries for one target, one for each change of its
  intersection since the last delivery. The host page may insert, remove and rewrite
  nodes at will, but does not take the \<open>data-turbo-observed\<close> attribute off a \<open>pre\<close>
  element that has been registered.
\<close>

datatype lazy_event = HostMutation "node list" | Rescan | Notify "entry list"

definition keeps_markers :: "nat set \<Rightarrow> node list \<Rightarrow> bool" where
  "keeps_markers reg d =
     list_all (\<lambda>e. tag e = ''pre'' \<and> nid e \<in> reg \<longrightarrow> attr e ''data-turbo-observed'' \<noteq> None)
       (elements d)"

fun lazy_step :: "lazy_event \<Rightarrow> lazy_state \<Rightarrow> lazy_state option" where
  "lazy_step (HostMutation d) s =
     (if keeps_markers (registered s) d then Some (s\<lparr>page_document := d\<rparr>) else None)"
| "lazy_step Rescan s = Some (observeCodeBlocks s)"
| "lazy_step (Notify ens) s =
     (if set (map entry_target ens) \<subseteq> observed s
      then Some (on_intersection ens s) else None)"

fun lazy_run :: "lazy_event list \<Rightarrow> lazy_state \<Rightarrow> lazy_state option" where
  "lazy_run [] s = Some s"
| "lazy_run (ev # evs) s = (case lazy_step ev s of None \<Rightarrow> None | Some s' \<Rightarrow> lazy_run evs s')"

definition lazy_init :: "node list \<Rightarrow> lazy_state" where
  "lazy_init d = \<lparr>page_document = d, observed = {}, registered = {}, enabled = []\<rparr>"

text \<open>The log of rendering-enable actions of a run from a document.\<close>

definition enable_log :: "lazy_event list \<Rightarrow> node list \<Rightarrow> nat list option" where
  "enable_log evs d = map_option enabled (lazy_run evs (lazy_init d))"

text \<open>Runs in which no batch holds two intersecting entries for one target.\<close>

fun single_entries :: "lazy_event list \<Rightarrow> bool" where
  "single_entries [] = True"
| "single_entries (Notify ens # evs) =
     (distinct (map entry_target (filter isIntersecting ens)) \<and> single_entries evs)"
| "single_entries (ev # evs) = single_entries evs"

definition lazy_inv :: "lazy_state \<Rightarrow> bool" where
  "lazy_inv s \<longleftrightarrow>
     set (enabled s) \<subseteq> registered s \<and> observed s \<subseteq> registered s \<and>
     set (enabled s) \<inter> observed s = {} \<and> keeps_markers (registered s) (page_document s)"

text \<open>One code block that leaves the margin, enters it, and is rescanned afterwards;
  and one code block whose visibility toggles three times before the browser delivers
  the entries.\<close>

definition toggle_trace :: "lazy_event list" where
  "toggle_trace = [Rescan, Notify [\<lparr>entry_target = 1, isIntersecting = True\<rparr>,
     \<lparr>entry_target = 1, isIntersecting = False\<rparr>, \<lparr>entry_target = 1, isIntersecting = True\<rparr>]]"

definition code_doc :: "node list" where
  "code_doc = [Element (mk_elem 1 ''pre'' []) []]"

definition code_trace :: "lazy_event list" where
  "code_trace = [Rescan, Notify [\<lparr>entry_target = 1, isIntersecting = False\<rparr>],
     Notify [\<lparr>entry_target = 1, isIntersecting = True\<rparr>], Rescan]"

definition code_end :: lazy_state where
  "code_end = \<lparr>page_document =
       [Element ((mk_elem 1 ''pre'' [(''data-turbo-observed'', ''true'')])
          \<lparr>style_contentVisibility := CssText ''visible'',
           style_containIntrinsicSize := CssText ''auto 100px''\<rparr>) []],
     observed = {}, registered = {1}, enabled = [1]\<rparr>"

section \<open>Memory management (\<open>memoryManagement\<close>)\<close>

text \<open>
  \<open>window.performance.memory\<close> is a non-standard capability: \<open>None\<close> when
  \<open>window.performance\<close> or its \<open>memory\<close> is missing. The sizes are byte counts.
\<close>

record heap =
  usedJSHeapSize :: nat
  totalJSHeapSize :: nat

text \<open>\<open>used / total > 0.8\<close> on JavaScript numbers: a zero total gives \<open>Infinity\<close> for a
  positive \<open>used\<close> (greater than 0.8) and \<open>NaN\<close> for \<open>0 / 0\<close> (every comparison false).\<close>

definition high_usage :: "heap \<Rightarrow> bool" where
  "high_usage m =
     (if totalJSHeapSize m = 0 then 0 < usedJSHeapSize m
      else real (usedJSHeapSize m) / real (totalJSHeapSize m) > 8 / 10)"

record mem_state =
  document :: "node list"
  lastCleanup :: int
  console :: "string list"

text \<open>The selector \<open>img[src*="blob:"]\<close>.\<close>

definition is_blob_img :: "elem \<Rightarrow> bool" where
  "is_blob_img e = (tag e = ''img'' \<and>
     (case attr e ''src'' of None \<Rightarrow> False | Some v \<Rightarrow> contains_str ''blob:'' v))"

text \<open>The body of the \<open>forEach\<close>: \<open>if (!img.offsetParent) img.src = ''\<close>, and the
  \<open>forEach\<close> over the document; \<open>hid\<close> says that an ancestor has the inline style
  \<open>display: none\<close>.\<close>

definition clear_img :: "bool \<Rightarrow> elem \<Rightarrow> elem" where
  "clear_img hid e =
     (if is_blob_img e \<and> \<not> has_offsetParent hid e then setAttribute ''src'' [] e else e)"

fun clear_images :: "bool \<Rightarrow> node list \<Rightarrow> node list" where
  "clear_images hid [] = []"
| "clear_images hid (Text t # ns) = Text t # clear_images hid ns"
| "clear_images hid (Element e ks # ns) =
     Element (clear_img hid e) (clear_images (hid \<or> \<not> shown e) ks) # clear_images hid ns"

definition clear_blob_images :: "node list \<Rightarrow> node list" where
  "clear_blob_images d = clear_images False d"

definition high_memory_msg :: string where
  "high_memory_msg = ''[ChatGPT Turbo] High memory usage detected, cleaning up...''"

text \<open>\<open>aggressiveCleanup()\<close>, run at time \<open>now\<close> (\<open>Date.now()\<close>, in milliseconds) with the
  heap capability \<open>mem\<close>. No statement of it can throw: the heap read is guarded, and
  the query, the attribute write and the assignment are total.\<close>

definition aggressiveCleanup :: "int \<Rightarrow> heap option \<Rightarrow> mem_state \<Rightarrow> mem_state" where
  "aggressiveCleanup now mem s =
     (let s1 = (case mem of
                  None \<Rightarrow> s
                | Some m \<Rightarrow> if high_usage m then s\<lparr>console := console s @ [high_memory_msg]\<rparr> else s)
      in s1\<lparr>document := clear_blob_images (document s1), lastCleanup := now\<rparr>)"

text \<open>The \<open>visibilitychange\<close> listener; \<open>hid\<close> is \<open>document.hidden\<close>.\<close>

definition on_visibilitychange :: "bool \<Rightarrow> int \<Rightarrow> heap option \<Rightarrow> mem_state \<Rightarrow> mem_state" where
  "on_visibilitychange hid now mem s =
     (if hid \<and> now - lastCleanup s > 60000 then aggressiveCleanup now mem s else s)"

text \<open>The callback of \<open>setInterval(aggressiveCleanup, 120000)\<close>.\<close>

definition on_interval :: "int \<Rightarrow> heap option \<Rightarrow> mem_state \<Rightarrow> mem_state" where
  "on_interval now mem s = aggressiveCleanup now mem s"

text \<open>A detached blob-backed image, used as a concrete document below.\<close>

definition blob_img :: elem where
  "blob_img = (mk_elem 1 ''img'' [(''src'', ''blob:https://chatgpt.com/1'')])\<lparr>offsetParent := False\<rparr>"

definition blob_state :: mem_state where
  "blob_state = \<lparr>document = [Element blob_img []], lastCleanup = 0, console = []\<rparr>"

section \<open>Input handler throttle: results\<close>

























lemma addEventListener_unwrapped:
  "ty \<notin> set THROTTLE_EVENTS \<or> \<not> is_function l \<Longrightarrow>
   addEventListener tgt ty l os p = unpatched_addEventListener tgt ty l os p"
  by (cases l) (auto simp: unpatched_addEventListener_def)

lemma fresh_not_registered:
  "wf_page p \<Longrightarrow> \<not> list_ex (same_listener tgt ty (Throttled (length (closures p))) os) (listeners p)"
  by (auto simp: wf_page_def list_all_iff list_ex_iff same_listener_def)

lemma wrapped_registered:
  assumes "wf_page p" and "ty \<in> set THROTTLE_EVENTS"
  shows "listeners (addEventListener tgt ty (Function f) os p) =
     listeners p @ [\<lparr>target = tgt, etype = ty, callback = Throttled (length (closures p)), opts = os\<rparr>]"
  using assms fresh_not_registered [OF assms(1), of tgt ty os]
  by (simp add: originalAddEventListener_def)

lemma removal_unpatched:
  "\<not> list_ex (same_listener tgt ty (Host l) os)
     (listeners (removeEventListener tgt ty l os p))"
  by (simp add: removeEventListener_def list_ex_iff)

lemma wf_page_empty: "wf_page empty_page"
  by (simp add: wf_page_def empty_page_def)

lemma wf_page_original:
  assumes "wf_page p" and "case cb of Throttled k \<Rightarrow> k < length cs | Host l \<Rightarrow> True"
    and "length (closures p) \<le> length cs"
  shows "wf_page \<lparr>listeners = originalAddEventListener tgt ty cb os (listeners p), closures = cs\<rparr>"
  using assms
  by (auto simp: wf_page_def originalAddEventListener_def list_all_iff split: callback.splits)

lemma wf_page_add: "wf_page p \<Longrightarrow> wf_page (addEventListener tgt ty l os p)"
proof (cases l)
  case (Function f)
  assume w: "wf_page p"
  show ?thesis
  proof (cases "ty \<in> set THROTTLE_EVENTS")
    case True
    have "wf_page \<lparr>listeners = originalAddEventListener tgt ty (Throttled (length (closures p))) os (listeners p),
        closures = closures p @ [new_throttle f]\<rparr>"
      using w by (rule wf_page_original) simp_all
    then show ?thesis using Function True
      by (auto simp: wf_page_def list_all_iff split: callback.splits)
  next
    case False
    have "wf_page \<lparr>listeners = originalAddEventListener tgt ty (Host (Function f)) os (listeners p),
        closures = closures p\<rparr>"
      using w by (rule wf_page_original) simp_all
    then show ?thesis using Function False
      by (auto simp: wf_page_def list_all_iff split: callback.splits)
  qed
next
  case (HandlerObject h)
  assume w: "wf_page p"
  have "wf_page \<lparr>listeners = originalAddEventListener tgt ty (Host (HandlerObject h)) os (listeners p),
      closures = closures p\<rparr>"
    using w by (rule wf_page_original) simp_all
  then show ?thesis using HandlerObject
    by (auto simp: wf_page_def list_all_iff split: callback.splits)
next
  case Null
  assume w: "wf_page p"
  have "wf_page \<lparr>listeners = originalAddEventListener tgt ty (Host Null) os (listeners p),
      closures = closures p\<rparr>"
    using w by (rule wf_page_original) simp_all
  then show ?thesis using Null
    by (auto simp: wf_page_def list_all_iff split: callback.splits)
qed

lemma wf_page_remove: "wf_page p \<Longrightarrow> wf_page (removeEventListener tgt ty l os p)"
  by (auto simp: wf_page_def removeEventListener_def list_all_iff split: callback.splits)

lemma wf_page_call: "wf_page p \<Longrightarrow> wf_page (fst (call_throttled k now th as p))"
  by (auto simp: wf_page_def call_throttled_def Let_def list_all_iff split: callback.splits)

text \<open>
  C8, as stated, fails at the first part: a registration for the designated type
  \<open>input\<close> whose listener is an object with \<open>handleEvent\<close> is not wrapped; the object
  itself is registered and no closure is created.
\<close>

theorem C8_counterexample:
  "''input'' \<in> set THROTTLE_EVENTS \<and>
   addEventListener 0 ''input'' (HandlerObject 5) default_options empty_page =
     \<lparr>listeners = [\<lparr>target = 0, etype = ''input'', callback = Host (HandlerObject 5),
                     opts = default_options\<rparr>],
      closures = []\<rparr>"
  by (simp add: THROTTLE_EVENTS_def empty_page_def originalAddEventListener_def)

text \<open>
  C8, amended: after the interceptor is installed, every registration for a designated
  event type whose listener is a function registers a new throttled wrapper of that
  function, and calling the wrapper runs the throttle on its own fresh state. Every
  other registration, for another event type or with a listener that is not a function,
  is the unpatched registration: the same state results, so the same listener is called
  with the same arguments and \<open>this\<close>, and \<open>removeEventListener\<close> with the same
  listener removes it.
\<close>

theorem C8_interceptor:
  "(ty \<in> set THROTTLE_EVENTS \<and> wf_page p \<longrightarrow>
      listeners (addEventListener tgt ty (Function f) os p) =
        listeners p @ [\<lparr>target = tgt, etype = ty, callback = Throttled (length (closures p)), opts = os\<rparr>] \<and>
      closures (addEventListener tgt ty (Function f) os p) ! length (closures p) = new_throttle f \<and>
      call_throttled (length (closures p)) now th as (addEventListener tgt ty (Function f) os p) =
        ((addEventListener tgt ty (Function f) os p)
           \<lparr>closures := closures p @ [fst (throttled now th as (new_throttle f))]\<rparr>,
         snd (throttled now th as (new_throttle f)))) \<and>
   (ty \<notin> set THROTTLE_EVENTS \<or> \<not> is_function l \<longrightarrow>
      addEventListener tgt ty l os p = unpatched_addEventListener tgt ty l os p \<and>
      removeEventListener tgt ty l os (addEventListener tgt ty l os p) =
        removeEventListener tgt ty l os (unpatched_addEventListener tgt ty l os p) \<and>
      \<not> list_ex (same_listener tgt ty (Host l) os)
          (listeners (removeEventListener tgt ty l os (addEventListener tgt ty l os p))))"
proof (intro conjI impI)
  assume a: "ty \<in> set THROTTLE_EVENTS \<and> wf_page p"
  then have w: "wf_page p" and t: "ty \<in> set THROTTLE_EVENTS" by simp_all
  show "listeners (addEventListener tgt ty (Function f) os p) =
        listeners p @ [\<lparr>target = tgt, etype = ty, callback = Throttled (length (closures p)), opts = os\<rparr>]"
    using w t by (rule wrapped_registered)
  show c: "closures (addEventListener tgt ty (Function f) os p) ! length (closures p) = new_throttle f"
    using t by simp
  show "call_throttled (length (closures p)) now th as (addEventListener tgt ty (Function f) os p) =
        ((addEventListener tgt ty (Function f) os p)
           \<lparr>closures := closures p @ [fst (throttled now th as (new_throttle f))]\<rparr>,
         snd (throttled now th as (new_throttle f)))"
    using t by (simp add: call_throttled_def Let_def)
next
  assume a: "ty \<notin> set THROTTLE_EVENTS \<or> \<not> is_function l"
  then show u: "addEventListener tgt ty l os p = unpatched_addEventListener tgt ty l os p"
    by (rule addEventListener_unwrapped)
  show "removeEventListener tgt ty l os (addEventListener tgt ty l os p) =
        removeEventListener tgt ty l os (unpatched_addEventListener tgt ty l os p)"
    by (simp only: u)
  show "\<not> list_ex (same_listener tgt ty (Host l) os)
          (listeners (removeEventListener tgt ty l os (addEventListener tgt ty l os p)))"
    by (rule removal_unpatched)
qed

text \<open>The theorem at a \<open>keydown\<close> and a \<open>click\<close> registration of a function.\<close>

theorem C8_interceptor_witness:
  "listeners (addEventListener 0 ''keydown'' (Function 7) default_options empty_page) =
     [\<lparr>target = 0, etype = ''keydown'', callback = Throttled 0, opts = default_options\<rparr>] \<and>
   addEventListener 0 ''click'' (Function 7) default_options empty_page =
     unpatched_addEventListener 0 ''click'' (Function 7) default_options empty_page \<and>
   listeners (removeEventListener 0 ''click'' (Function 7) default_options
     (addEventListener 0 ''click'' (Function 7) default_options empty_page)) = []"
proof -
  have w: "''keydown'' \<in> set THROTTLE_EVENTS \<and> wf_page empty_page"
    by (simp add: THROTTLE_EVENTS_def wf_page_def empty_page_def)
  have n: "''click'' \<notin> set THROTTLE_EVENTS \<or> \<not> is_function (Function 7)"
    by (simp add: THROTTLE_EVENTS_def)
  have a: "listeners (addEventListener 0 ''keydown'' (Function 7) default_options empty_page) =
     [\<lparr>target = 0, etype = ''keydown'', callback = Throttled 0, opts = default_options\<rparr>]"
    using C8_interceptor [of "''keydown''" empty_page 0 7 default_options] w
    by (simp add: empty_page_def)
  have b: "addEventListener 0 ''click'' (Function 7) default_options empty_page =
     unpatched_addEventListener 0 ''click'' (Function 7) default_options empty_page"
    using C8_interceptor [of "''click''" empty_page 0 7 default_options _ _ _ "Function 7"] n
    by blast
  have c: "listeners (removeEventListener 0 ''click'' (Function 7) default_options
     (addEventListener 0 ''click'' (Function 7) default_options empty_page)) = []"
    unfolding b
    by (simp add: unpatched_addEventListener_def removeEventListener_def empty_page_def
        originalAddEventListener_def same_listener_def)
  from a b c show ?thesis by simp
qed

text \<open>
  C10: for a registration of a designated event type whose listener is a function, the
  callback handed to the original \<open>addEventListener\<close> is a wrapper created by this
  registration, different from the caller's function and from every callback registered
  before; it has throttle state of its own (calling it leaves the other closures as they
  are, calling another leaves it as it is), and registering the same function again
  creates a second wrapper. \<open>removeEventListener\<close> with the original function leaves
  the wrapper registered. A listener that is not a function is registered unwrapped,
  also for a designated event type.
\<close>

theorem C10_fresh_wrapper:
  assumes "wf_page p" and "ty \<in> set THROTTLE_EVENTS"
  shows "listeners (addEventListener tgt ty (Function f) os p) =
       listeners p @ [\<lparr>target = tgt, etype = ty, callback = Throttled (length (closures p)), opts = os\<rparr>] \<and>
     Throttled (length (closures p)) \<noteq> Host (Function f) \<and>
     Throttled (length (closures p)) \<notin> callback ` set (listeners p) \<and>
     closures (addEventListener tgt ty (Function f) os p) = closures p @ [new_throttle f] \<and>
     (\<forall>j now th as. j < length (closures p) \<longrightarrow>
        closures (fst (call_throttled (length (closures p)) now th as
                    (addEventListener tgt ty (Function f) os p))) ! j = closures p ! j) \<and>
     (\<forall>j now th as. j < length (closures p) \<longrightarrow>
        closures (fst (call_throttled j now th as
                    (addEventListener tgt ty (Function f) os p))) ! length (closures p) = new_throttle f) \<and>
     listeners (addEventListener tgt ty (Function f) os (addEventListener tgt ty (Function f) os p)) =
       listeners p @ [\<lparr>target = tgt, etype = ty, callback = Throttled (length (closures p)), opts = os\<rparr>,
                      \<lparr>target = tgt, etype = ty, callback = Throttled (Suc (length (closures p))), opts = os\<rparr>] \<and>
     listeners (removeEventListener tgt ty (Function f) os (addEventListener tgt ty (Function f) os p)) =
       listeners (removeEventListener tgt ty (Function f) os p) @
         [\<lparr>target = tgt, etype = ty, callback = Throttled (length (closures p)), opts = os\<rparr>] \<and>
     (\<not> is_function l \<longrightarrow>
        addEventListener tgt ty l os p = unpatched_addEventListener tgt ty l os p)"
proof -
  let ?p = "addEventListener tgt ty (Function f) os p"
  let ?k = "length (closures p)"
  have l1: "listeners ?p = listeners p @ [\<lparr>target = tgt, etype = ty, callback = Throttled ?k, opts = os\<rparr>]"
    using assms by (rule wrapped_registered)
  have c1: "closures ?p = closures p @ [new_throttle f]"
    using assms(2) by simp
  have fresh: "Throttled ?k \<notin> callback ` set (listeners p)"
  proof
    assume "Throttled ?k \<in> callback ` set (listeners p)"
    then obtain r where r: "r \<in> set (listeners p)" "callback r = Throttled ?k" by auto
    then have "case callback r of Throttled k \<Rightarrow> k < ?k | Host l \<Rightarrow> True"
      using assms(1) r(1) unfolding wf_page_def list_all_iff by blast
    with r(2) show False by simp
  qed
  have w: "wf_page ?p"
    using assms(1) unfolding wf_page_def l1 c1
    by (auto simp: list_all_iff split: callback.splits)
  have i1: "\<forall>j now th as. j < ?k \<longrightarrow>
        closures (fst (call_throttled ?k now th as ?p)) ! j = closures p ! j"
    unfolding call_throttled_def Let_def fst_conv c1
    by (simp add: nth_append)
  have i2: "\<forall>j now th as. j < ?k \<longrightarrow>
        closures (fst (call_throttled j now th as ?p)) ! ?k = new_throttle f"
    unfolding call_throttled_def Let_def fst_conv c1
    by simp
  have l2: "listeners (addEventListener tgt ty (Function f) os ?p) =
       listeners p @ [\<lparr>target = tgt, etype = ty, callback = Throttled ?k, opts = os\<rparr>,
                      \<lparr>target = tgt, etype = ty, callback = Throttled (Suc ?k), opts = os\<rparr>]"
    using wrapped_registered [OF w assms(2), of tgt f os]
    by (simp add: l1 c1 del: addEventListener.simps)
  have r: "listeners (removeEventListener tgt ty (Function f) os ?p) =
       listeners (removeEventListener tgt ty (Function f) os p) @
         [\<lparr>target = tgt, etype = ty, callback = Throttled ?k, opts = os\<rparr>]"
    by (simp add: removeEventListener_def l1 same_listener_def del: addEventListener.simps)
  have u: "\<not> is_function l \<longrightarrow>
        addEventListener tgt ty l os p = unpatched_addEventListener tgt ty l os p"
    by (simp add: addEventListener_unwrapped)
  from l1 c1 fresh i1 i2 l2 r u show ?thesis by blast
qed

text \<open>The theorem at a \<open>keydown\<close> registration on an empty page.\<close>

theorem C10_fresh_wrapper_witness:
  "listeners (removeEventListener 0 ''keydown'' (Function 7) default_options
      (addEventListener 0 ''keydown'' (Function 7) default_options empty_page)) =
     [\<lparr>target = 0, etype = ''keydown'', callback = Throttled 0, opts = default_options\<rparr>] \<and>
   listeners (addEventListener 0 ''keydown'' (HandlerObject 5) default_options empty_page) =
     [\<lparr>target = 0, etype = ''keydown'', callback = Host (HandlerObject 5), opts = default_options\<rparr>]"
proof -
  have w: "wf_page empty_page" by (simp add: wf_page_def empty_page_def)
  have t: "''keydown'' \<in> set THROTTLE_EVENTS" by (simp add: THROTTLE_EVENTS_def)
  note th = C10_fresh_wrapper [OF w t, of 0 7 default_options "HandlerObject 5"]
  have "listeners (removeEventListener 0 ''keydown'' (Function 7) default_options
      (addEventListener 0 ''keydown'' (Function 7) default_options empty_page)) =
       listeners (removeEventListener 0 ''keydown'' (Function 7) default_options empty_page) @
         [\<lparr>target = 0, etype = ''keydown'', callback = Throttled (length (closures empty_page)),
            opts = default_options\<rparr>]"
    using th by blast
  moreover have "addEventListener 0 ''keydown'' (HandlerObject 5) default_options empty_page =
      unpatched_addEventListener 0 ''keydown'' (HandlerObject 5) default_options empty_page"
    using th by simp
  ultimately show ?thesis
    by (simp add: removeEventListener_def empty_page_def unpatched_addEventListener_def
        originalAddEventListener_def)
qed

section \<open>Periodic DOM cleanup: results\<close>

lemma remove_tooltips_fix: "no_tooltip_target hid opn d \<Longrightarrow> remove_tooltips hid opn d = d"
  by (induction hid opn d rule: remove_tooltips.induct) auto

lemma remove_tooltips_clean: "no_tooltip_target hid opn (remove_tooltips hid opn d)"
  by (induction hid opn d rule: remove_tooltips.induct) auto

lemma remove_where_keeps_clean:
  "no_tooltip_target hid opn d \<Longrightarrow> no_tooltip_target hid opn (remove_where P d)"
  by (induction hid opn d rule: no_tooltip_target.induct) auto

lemma remove_where_fix: "none_where P d \<Longrightarrow> remove_where P d = d"
  by (induction P d rule: remove_where.induct) auto

lemma remove_where_clean:
  "(\<And>e ks ks'. P e ks = P e ks') \<Longrightarrow> none_where P (remove_where P d)"
  by (induction P d rule: remove_where.induct) auto

lemma all_text_remove_where: "list_all is_text ks \<Longrightarrow> remove_where P ks = ks"
  by (induction P ks rule: remove_where.induct) auto

lemma all_text_remove_tooltips: "list_all is_text ks \<Longrightarrow> remove_tooltips hid opn ks = ks"
  by (induction hid opn ks rule: remove_tooltips.induct) auto

lemma all_text_none_where: "list_all is_text ks \<Longrightarrow> none_where P ks"
  by (induction P ks rule: none_where.induct) auto

lemma styles_hold_text_remove_where:
  "styles_hold_text d \<Longrightarrow> styles_hold_text (remove_where P d)"
  by (induction P d rule: remove_where.induct) (auto simp: all_text_remove_where split: if_splits)

lemma styles_hold_text_remove_tooltips:
  "styles_hold_text d \<Longrightarrow> styles_hold_text (remove_tooltips hid opn d)"
  by (induction hid opn d rule: remove_tooltips.induct) (auto simp: all_text_remove_tooltips split: if_splits)

lemma empty_style_clean:
  "styles_hold_text d \<Longrightarrow> none_where is_empty_style (remove_where is_empty_style d)"
  by (induction d rule: styles_hold_text.induct)
     (auto simp: all_text_remove_where all_text_none_where is_empty_style_def split: if_splits)

lemma empty_style_stays_clean:
  "styles_hold_text d \<Longrightarrow> none_where is_empty_style d \<Longrightarrow>
   none_where is_empty_style (remove_where P d)"
  by (induction d rule: styles_hold_text.induct)
     (auto simp: all_text_remove_where all_text_none_where is_empty_style_def split: if_splits)

lemma cleanup_under_idem:
  assumes "styles_hold_text d"
  shows "cleanup_under hid opn (cleanup_under hid opn d) = cleanup_under hid opn d"
proof -
  let ?d1 = "remove_tooltips hid opn d"
  let ?d2 = "remove_where is_empty_style ?d1"
  let ?d3 = "remove_where is_orphan_overlay ?d2"
  have t1: "styles_hold_text ?d1" using assms by (rule styles_hold_text_remove_tooltips)
  have t2: "styles_hold_text ?d2" using t1 by (rule styles_hold_text_remove_where)
  have a: "no_tooltip_target hid opn ?d3"
    by (intro remove_where_keeps_clean remove_tooltips_clean)
  have b: "none_where is_empty_style ?d3"
    using t2 empty_style_clean [OF t1] by (rule empty_style_stays_clean)
  have c: "none_where is_orphan_overlay ?d3"
    by (rule remove_where_clean) (simp add: is_orphan_overlay_def)
  show ?thesis
    unfolding cleanup_under_def
    by (simp add: remove_tooltips_fix [OF a] remove_where_fix [OF b] remove_where_fix [OF c])
qed

lemma cleanup_nested_style: "cleanup nested_style_doc = [Element (mk_elem 1 ''style'' []) []]"
  by (simp add: cleanup_def cleanup_under_def nested_style_doc_def is_tooltip_def is_open_def
     is_empty_style_def is_orphan_overlay_def attr_def mk_elem_def has_offsetParent_def shown_def)

lemma cleanup_lone_style: "cleanup [Element (mk_elem 1 ''style'' []) []] = []"
  by (simp add: cleanup_def cleanup_under_def is_tooltip_def is_open_def
     is_empty_style_def is_orphan_overlay_def attr_def mk_elem_def has_offsetParent_def shown_def)

text \<open>
  C7, as stated, fails: in a document where a \<open>style\<close> element holds one child
  element with \<open>data-headlessui-state=""\<close>, the first sweep removes the child in its
  third pass, after the second pass has found the \<open>style\<close> element not empty; the second
  sweep then finds the \<open>style\<close> element empty and removes it.
\<close>

theorem C7_counterexample:
  "cleanup nested_style_doc = [Element (mk_elem 1 ''style'' []) []] \<and>
   cleanup (cleanup nested_style_doc) = [] \<and>
   cleanup (cleanup nested_style_doc) \<noteq> cleanup nested_style_doc"
  unfolding cleanup_nested_style cleanup_lone_style by simp

text \<open>
  C7, amended: for every document in which \<open>style\<close> elements hold text nodes only,
  a second sweep with no change of the document in between removes nothing: it leaves
  the document exactly as the first sweep left it.
\<close>

theorem C7_idempotent: "styles_hold_text d \<Longrightarrow> cleanup (cleanup d) = cleanup d"
  unfolding cleanup_def by (rule cleanup_under_idem)

lemma cleanup_debris:
  "cleanup debris_doc =
     [Element (mk_elem 3 ''style'' []) [Text ''p { margin: 0 }''],
      Element (mk_elem 5 ''main'' []) [Text ''hello'']]"
  by (simp add: cleanup_def cleanup_under_def debris_doc_def is_tooltip_def is_open_def
     is_empty_style_def is_orphan_overlay_def attr_def mk_elem_def has_offsetParent_def shown_def)

text \<open>The theorem at a document with a stale tooltip, an empty and a non-empty
  \<open>style\<close> element, an empty overlay and ordinary content.\<close>

theorem C7_idempotent_witness:
  "styles_hold_text debris_doc \<and>
   cleanup debris_doc =
     [Element (mk_elem 3 ''style'' []) [Text ''p { margin: 0 }''],
      Element (mk_elem 5 ''main'' []) [Text ''hello'']] \<and>
   cleanup (cleanup debris_doc) = cleanup debris_doc"
proof -
  have s: "styles_hold_text debris_doc"
    by (simp add: debris_doc_def mk_elem_def)
  from s C7_idempotent [OF s] cleanup_debris show ?thesis by simp
qed

section \<open>Message virtualization: results\<close>

lemma visit_exempt:
  "int i \<ge> int n - 3 \<Longrightarrow> \<not> is_collapsed (fst (visit w n i msg))"
  by (simp add: visit_def Let_def is_collapsed_def split: option.split)

lemma virtualizeCheck_nth:
  "10 \<le> length ms \<Longrightarrow> i < length ms \<Longrightarrow> virtualizeCheck w ms ! i = visit w (length ms) i (ms ! i)"
  by (simp add: virtualizeCheck_def nth_enumerate_eq)

lemma virtualizeCheck_short: "length ms < 10 \<Longrightarrow> virtualizeCheck w ms = ms"
  by (simp add: virtualizeCheck_def)

lemma length_virtualizeCheck: "length (virtualizeCheck w ms) = length ms"
  by (simp add: virtualizeCheck_def)

lemma visit_collapse:
  "int i < int n - 3 \<Longrightarrow> far_from_viewport w e \<Longrightarrow> \<not> is_collapsed e \<Longrightarrow>
   visit w n i (e, ks) =
     (e\<lparr>collapsedData := Some \<lparr>height = rect_height e, hidden = True\<rparr>,
        style_height := CssPx (rect_height e),
        style_overflow := CssText ''hidden'',
        style_visibility := CssText ''hidden''\<rparr>,
      set_children_display (CssText ''none'') ks)"
  by (auto simp: visit_def Let_def is_collapsed_def far_from_viewport_def split: option.splits)

lemma visit_restore:
  "int i < int n - 3 \<Longrightarrow> \<not> far_from_viewport w e \<Longrightarrow> collapsedData e = Some data \<Longrightarrow> hidden data \<Longrightarrow>
   visit w n i (e, ks) =
     (e\<lparr>style_height := CssText [], style_overflow := CssText [],
        style_visibility := CssText [],
        collapsedData := Some (data\<lparr>hidden := False\<rparr>)\<rparr>,
      set_children_display (CssText []) ks)"
  by (auto simp: visit_def Let_def is_collapsed_def far_from_viewport_def split: option.splits)

lemma set_children_display_twice:
  "set_children_display v (set_children_display u ks) = set_children_display v ks"
  by (induction u ks rule: set_children_display.induct) auto

lemma display_update_id: "e\<lparr>style_display := v\<rparr> = e \<longleftrightarrow> style_display e = v"
  by (cases e) auto

lemma set_children_display_id:
  "set_children_display v ks = ks \<longleftrightarrow> (\<forall>c \<in> set (children_display ks). c = v)"
  by (induction v ks rule: set_children_display.induct) (auto simp: display_update_id)

lemma turn_far: "far_from_viewport scrolled_down (fst (turn k))"
  by (simp add: far_from_viewport_def scrolled_down_def turn_def mk_elem_def VIEWPORT_MARGIN_def)

lemma turn_expanded: "\<not> is_collapsed (fst (turn k))"
  by (simp add: is_collapsed_def turn_def mk_elem_def)

lemma turn_swept:
  "int i < int n - 3 \<Longrightarrow> is_collapsed (fst (visit scrolled_down n i (turn k)))"
  using visit_collapse [of i n scrolled_down "fst (turn k)" "snd (turn k)"] turn_far turn_expanded
  by (simp add: is_collapsed_def)

text \<open>
  C6, as stated, fails: a sweep over fewer than ten elements returns at once and restores
  nothing. Ten turns far above the viewport are swept, which collapses the first seven;
  the host page then removes the last four turns. In the next sweep the sixth turn is
  among the last three and is still Collapsed afterwards.
\<close>

theorem C6_counterexample:
  "length (take 6 (virtualizeCheck scrolled_down conversation)) = 6 \<and>
   is_collapsed (fst (virtualizeCheck scrolled_down (take 6 (virtualizeCheck scrolled_down conversation)) ! 5))"
proof -
  have len: "length conversation = 10" by (simp add: conversation_def)
  have nth: "conversation ! 5 = turn 5" by (simp add: conversation_def)
  have "virtualizeCheck scrolled_down conversation ! 5
      = visit scrolled_down (length conversation) 5 (conversation ! 5)"
    by (rule virtualizeCheck_nth) (simp_all add: len)
  then have "virtualizeCheck scrolled_down conversation ! 5 = visit scrolled_down 10 5 (turn 5)"
    by (simp only: len nth)
  then have c: "is_collapsed (fst (virtualizeCheck scrolled_down conversation ! 5))"
    using turn_swept [of 5 10 5] by simp
  have l6: "length (take 6 (virtualizeCheck scrolled_down conversation)) = 6"
    by (simp add: length_virtualizeCheck len)
  then have "virtualizeCheck scrolled_down (take 6 (virtualizeCheck scrolled_down conversation))
      = take 6 (virtualizeCheck scrolled_down conversation)"
    by (simp add: virtualizeCheck_short)
  with c l6 show ?thesis by simp
qed

text \<open>
  C6, amended: after every sweep over at least ten elements, each of the last three
  elements in document order is not Collapsed, whatever the scroll position; one that
  was Collapsed has its inline height, overflow and visibility and its children's
  inline display cleared. No sweep, of whatever length, puts one of the last three
  elements into the Collapsed state.
\<close>

theorem C6_exempt_tail:
  "(10 \<le> length ms \<and> i < length ms \<and> length ms - 3 \<le> i \<longrightarrow>
      \<not> is_collapsed (fst (virtualizeCheck w ms ! i)) \<and>
      (is_collapsed (fst (ms ! i)) \<longrightarrow>
         style_height (fst (virtualizeCheck w ms ! i)) = CssText [] \<and>
         style_overflow (fst (virtualizeCheck w ms ! i)) = CssText [] \<and>
         style_visibility (fst (virtualizeCheck w ms ! i)) = CssText [] \<and>
         snd (virtualizeCheck w ms ! i) = set_children_display (CssText []) (snd (ms ! i)))) \<and>
   (i < length ms \<and> length ms - 3 \<le> i \<and> \<not> is_collapsed (fst (ms ! i)) \<longrightarrow>
      \<not> is_collapsed (fst (virtualizeCheck w ms ! i)))"
proof (intro conjI impI)
  assume a: "10 \<le> length ms \<and> i < length ms \<and> length ms - 3 \<le> i"
  then have ex: "int i \<ge> int (length ms) - 3" by linarith
  have eq: "virtualizeCheck w ms ! i = visit w (length ms) i (ms ! i)"
    using a by (simp add: virtualizeCheck_nth)
  show "\<not> is_collapsed (fst (virtualizeCheck w ms ! i))"
    unfolding eq using ex by (rule visit_exempt)
  {
    assume c: "is_collapsed (fst (ms ! i))"
    then obtain data where d: "collapsedData (fst (ms ! i)) = Some data" "hidden data"
      by (auto simp: is_collapsed_def split: option.splits)
    have v: "visit w (length ms) i (ms ! i) =
        ((fst (ms ! i))\<lparr>style_height := CssText [], style_overflow := CssText [],
            style_visibility := CssText [],
            collapsedData := Some (data\<lparr>hidden := False\<rparr>)\<rparr>,
         set_children_display (CssText []) (snd (ms ! i)))"
      using ex d by (simp add: visit_def Let_def)
    show "style_height (fst (virtualizeCheck w ms ! i)) = CssText []"
      unfolding eq v by simp
    show "style_overflow (fst (virtualizeCheck w ms ! i)) = CssText []"
      unfolding eq v by simp
    show "style_visibility (fst (virtualizeCheck w ms ! i)) = CssText []"
      unfolding eq v by simp
    show "snd (virtualizeCheck w ms ! i) = set_children_display (CssText []) (snd (ms ! i))"
      unfolding eq v by simp
  }
next
  assume a: "i < length ms \<and> length ms - 3 \<le> i \<and> \<not> is_collapsed (fst (ms ! i))"
  show "\<not> is_collapsed (fst (virtualizeCheck w ms ! i))"
  proof (cases "length ms < 10")
    case True
    then show ?thesis using a by (simp add: virtualizeCheck_short)
  next
    case False
    then have "int i \<ge> int (length ms) - 3" using a by linarith
    moreover have "virtualizeCheck w ms ! i = visit w (length ms) i (ms ! i)"
      using False a by (simp add: virtualizeCheck_nth)
    ultimately show ?thesis by (simp add: visit_exempt)
  qed
qed

lemma collapse_then_restore:
  assumes i: "int i < int n - 3" and far: "far_from_viewport w e" and ex: "\<not> is_collapsed e"
    and again: "int i' \<ge> int n' - 3 \<or> \<not> far_from_viewport w' (relayout t b h (fst (visit w n i (e, ks))))"
  shows "visit w' n' i' (relayout t b h (fst (visit w n i (e, ks))), snd (visit w n i (e, ks))) =
     (e\<lparr>rect_top := t, rect_bottom := b, rect_height := h,
        style_height := CssText [], style_overflow := CssText [], style_visibility := CssText [],
        collapsedData := Some \<lparr>height = rect_height e, hidden = False\<rparr>\<rparr>,
      set_children_display (CssText []) ks)"
proof -
  let ?c = "e\<lparr>collapsedData := Some \<lparr>height = rect_height e, hidden = True\<rparr>,
        style_height := CssPx (rect_height e),
        style_overflow := CssText ''hidden'',
        style_visibility := CssText ''hidden''\<rparr>"
  have v: "visit w n i (e, ks) = (?c, set_children_display (CssText ''none'') ks)"
    using i far ex by (rule visit_collapse)
  show ?thesis
  proof (cases "int i' \<ge> int n' - 3")
    case True
    then show ?thesis
      unfolding v by (simp add: visit_def Let_def relayout_def set_children_display_twice)
  next
    case False
    then have nf: "\<not> far_from_viewport w' (relayout t b h ?c)" and lt: "int i' < int n' - 3"
      using again unfolding v by simp_all
    have cd: "collapsedData (relayout t b h ?c) = Some \<lparr>height = rect_height e, hidden = True\<rparr>"
      by (simp add: relayout_def)
    have "visit w' n' i' (relayout t b h ?c, set_children_display (CssText ''none'') ks) =
        ((relayout t b h ?c)\<lparr>style_height := CssText [], style_overflow := CssText [],
            style_visibility := CssText [],
            collapsedData := Some (\<lparr>height = rect_height e, hidden = True\<rparr>\<lparr>hidden := False\<rparr>)\<rparr>,
         set_children_display (CssText []) (set_children_display (CssText ''none'') ks))"
      using lt nf cd by (rule visit_restore) simp
    then show ?thesis
      unfolding v fst_conv snd_conv
      by (simp add: relayout_def set_children_display_twice)
  qed
qed

lemma styled_turn_far: "far_from_viewport scrolled_down (fst styled_turn)"
  by (simp add: far_from_viewport_def scrolled_down_def styled_turn_def turn_def mk_elem_def
      VIEWPORT_MARGIN_def)

lemma styled_turn_expanded: "\<not> is_collapsed (fst styled_turn)"
  by (simp add: is_collapsed_def styled_turn_def turn_def mk_elem_def)

text \<open>
  C5, as stated, fails: the restore does not reverse the style mutations of the collapse.
  A turn with the inline style \<open>overflow: auto\<close> is collapsed (\<open>overflow\<close> becomes
  \<open>hidden\<close>) and, after scrolling back, restored: its \<open>overflow\<close> is then empty, not
  \<open>auto\<close>.
\<close>

theorem C5_counterexample:
  "is_collapsed (fst collapsed_styled) \<and> \<not> is_collapsed (fst restored_styled) \<and>
   style_overflow (fst styled_turn) = CssText ''auto'' \<and>
   style_overflow (fst collapsed_styled) = CssText ''hidden'' \<and>
   style_overflow (fst restored_styled) = CssText []"
proof -
  have c: "collapsed_styled =
      ((fst styled_turn)\<lparr>collapsedData := Some \<lparr>height = rect_height (fst styled_turn), hidden = True\<rparr>,
          style_height := CssPx (rect_height (fst styled_turn)),
          style_overflow := CssText ''hidden'',
          style_visibility := CssText ''hidden''\<rparr>,
       set_children_display (CssText ''none'') (snd styled_turn))"
    unfolding collapsed_styled_def
    using visit_collapse [of 0 10 scrolled_down "fst styled_turn" "snd styled_turn"]
      styled_turn_far styled_turn_expanded by simp
  have near: "\<not> far_from_viewport at_top (relayout 1000 1100 100 (fst collapsed_styled))"
    unfolding c by (simp add: far_from_viewport_def at_top_def relayout_def VIEWPORT_MARGIN_def)
  have cd: "collapsedData (relayout 1000 1100 100 (fst collapsed_styled))
      = Some \<lparr>height = rect_height (fst styled_turn), hidden = True\<rparr>"
    unfolding c by (simp add: relayout_def)
  have r: "restored_styled =
      ((relayout 1000 1100 100 (fst collapsed_styled))\<lparr>style_height := CssText [],
          style_overflow := CssText [], style_visibility := CssText [],
          collapsedData := Some (\<lparr>height = rect_height (fst styled_turn), hidden = True\<rparr>\<lparr>hidden := False\<rparr>)\<rparr>,
       set_children_display (CssText []) (snd collapsed_styled))"
    unfolding restored_styled_def
    using visit_restore [of 0 10 at_top "relayout 1000 1100 100 (fst collapsed_styled)" _ "snd collapsed_styled", OF _ near cd]
    by simp
  have a: "is_collapsed (fst collapsed_styled)"
    unfolding c by (simp add: is_collapsed_def)
  have b: "\<not> is_collapsed (fst restored_styled)"
    unfolding r by (simp add: is_collapsed_def)
  have d: "style_overflow (fst styled_turn) = CssText ''auto''"
    by (simp add: styled_turn_def)
  have e: "style_overflow (fst collapsed_styled) = CssText ''hidden''"
    unfolding c by simp
  have f: "style_overflow (fst restored_styled) = CssText []"
    unfolding r by simp
  from a b d e f show ?thesis by simp
qed

text \<open>
  C5, amended: the collapse of an Expanded element caches the rendered height it reads
  at that moment and pins the inline height to it. The following Collapsed to Expanded
  transition, by re-entering the extended viewport or by becoming one of the last three,
  clears the inline height, overflow and visibility of the element and the inline
  display of every element child, and marks the element not hidden; the cached height
  stays recorded and is not read. The element and its children are thereby exactly as
  before the collapse if and only if those four inline styles were empty before it.
\<close>

theorem C5_round_trip:
  assumes "int i < int n - 3" and "far_from_viewport w e" and "\<not> is_collapsed e"
    and "int i' \<ge> int n' - 3 \<or> \<not> far_from_viewport w' (relayout t b h (fst (visit w n i (e, ks))))"
  shows "collapsedData (fst (visit w n i (e, ks))) = Some \<lparr>height = rect_height e, hidden = True\<rparr> \<and>
     style_height (fst (visit w n i (e, ks))) = CssPx (rect_height e) \<and>
     visit w' n' i' (relayout t b h (fst (visit w n i (e, ks))), snd (visit w n i (e, ks))) =
       (e\<lparr>rect_top := t, rect_bottom := b, rect_height := h,
          style_height := CssText [], style_overflow := CssText [], style_visibility := CssText [],
          collapsedData := Some \<lparr>height = rect_height e, hidden = False\<rparr>\<rparr>,
        set_children_display (CssText []) ks) \<and>
     ((e\<lparr>rect_top := t, rect_bottom := b, rect_height := h,
          collapsedData := Some \<lparr>height = rect_height e, hidden = False\<rparr>\<rparr>, ks) =
        visit w' n' i' (relayout t b h (fst (visit w n i (e, ks))), snd (visit w n i (e, ks)))
      \<longleftrightarrow> style_height e = CssText [] \<and> style_overflow e = CssText [] \<and>
          style_visibility e = CssText [] \<and> (\<forall>c \<in> set (children_display ks). c = CssText []))"
proof -
  have c: "visit w n i (e, ks) =
     (e\<lparr>collapsedData := Some \<lparr>height = rect_height e, hidden = True\<rparr>,
        style_height := CssPx (rect_height e),
        style_overflow := CssText ''hidden'',
        style_visibility := CssText ''hidden''\<rparr>,
      set_children_display (CssText ''none'') ks)"
    using assms(1-3) by (rule visit_collapse)
  have r: "visit w' n' i' (relayout t b h (fst (visit w n i (e, ks))), snd (visit w n i (e, ks))) =
       (e\<lparr>rect_top := t, rect_bottom := b, rect_height := h,
          style_height := CssText [], style_overflow := CssText [], style_visibility := CssText [],
          collapsedData := Some \<lparr>height = rect_height e, hidden = False\<rparr>\<rparr>,
        set_children_display (CssText []) ks)"
    using assms by (rule collapse_then_restore)
  have k: "ks = set_children_display (CssText []) ks \<longleftrightarrow> (\<forall>c \<in> set (children_display ks). c = CssText [])"
    using set_children_display_id [of "CssText []" ks] by auto
  have x: "e\<lparr>rect_top := t, rect_bottom := b, rect_height := h,
          collapsedData := Some \<lparr>height = rect_height e, hidden = False\<rparr>\<rparr> =
        e\<lparr>rect_top := t, rect_bottom := b, rect_height := h,
          style_height := CssText [], style_overflow := CssText [], style_visibility := CssText [],
          collapsedData := Some \<lparr>height = rect_height e, hidden = False\<rparr>\<rparr>
      \<longleftrightarrow> style_height e = CssText [] \<and> style_overflow e = CssText [] \<and>
          style_visibility e = CssText []"
    by (cases e) auto
  show ?thesis
    unfolding r using k x by (simp add: c)
qed

text \<open>The theorem at a conversation of ten turns whose last turn is Collapsed.\<close>

theorem C6_exempt_tail_witness:
  "is_collapsed (fst (shortened ! 9)) \<and>
   \<not> is_collapsed (fst (virtualizeCheck scrolled_down shortened ! 9)) \<and>
   style_height (fst (virtualizeCheck scrolled_down shortened ! 9)) = CssText []"
proof -
  have len: "length shortened = 10" by (simp add: shortened_def)
  have nth: "shortened ! 9 = visit scrolled_down 13 9 (turn 9)" by (simp add: shortened_def)
  have c: "is_collapsed (fst (shortened ! 9))"
    unfolding nth by (rule turn_swept) simp
  have h: "10 \<le> length shortened \<and> 9 < length shortened \<and> length shortened - 3 \<le> 9"
    by (simp add: len)
  show ?thesis
    using C6_exempt_tail [of shortened 9 scrolled_down] h c by blast
qed

text \<open>The theorem at a turn without inline styles, collapsed and scrolled back to.\<close>

theorem C5_round_trip_witness:
  "visit at_top 10 0 (relayout 1000 1100 100 (fst (visit scrolled_down 10 0 (turn 0))),
      snd (visit scrolled_down 10 0 (turn 0))) =
     ((fst (turn 0))\<lparr>rect_top := 1000, rect_bottom := 1100, rect_height := 100,
         collapsedData := Some \<lparr>height = 100, hidden = False\<rparr>\<rparr>, [])"
proof -
  have far: "far_from_viewport scrolled_down (fst (turn 0))" by (rule turn_far)
  have ex: "\<not> is_collapsed (fst (turn 0))" by (rule turn_expanded)
  have near: "int 0 \<ge> int 10 - 3 \<or> \<not> far_from_viewport at_top
      (relayout 1000 1100 100 (fst (visit scrolled_down 10 0 (fst (turn 0), snd (turn 0)))))"
    using visit_collapse [of 0 10 scrolled_down "fst (turn 0)" "snd (turn 0)"] far ex
    by (simp add: far_from_viewport_def at_top_def relayout_def VIEWPORT_MARGIN_def)
  have lt: "int 0 < int 10 - 3" by simp
  have "visit at_top 10 0 (relayout 1000 1100 100 (fst (visit scrolled_down 10 0 (fst (turn 0), snd (turn 0)))),
      snd (visit scrolled_down 10 0 (fst (turn 0), snd (turn 0)))) =
       ((fst (turn 0))\<lparr>rect_top := 1000, rect_bottom := 1100, rect_height := 100,
          style_height := CssText [], style_overflow := CssText [], style_visibility := CssText [],
          collapsedData := Some \<lparr>height = rect_height (fst (turn 0)), hidden = False\<rparr>\<rparr>,
        set_children_display (CssText []) (snd (turn 0)))"
    using C5_round_trip [OF lt far ex near] by blast
  moreover have "(fst (turn 0))\<lparr>rect_top := 1000, rect_bottom := 1100, rect_height := 100,
          style_height := CssText [], style_overflow := CssText [], style_visibility := CssText [],
          collapsedData := Some \<lparr>height = rect_height (fst (turn 0)), hidden = False\<rparr>\<rparr>
      = (fst (turn 0))\<lparr>rect_top := 1000, rect_bottom := 1100, rect_height := 100,
         collapsedData := Some \<lparr>height = 100, hidden = False\<rparr>\<rparr>"
    by (simp add: turn_def mk_elem_def)
  moreover have "set_children_display (CssText []) (snd (turn 0)) = []"
    by (simp add: turn_def)
  ultimately show ?thesis by simp
qed

lemma remove_tooltips_append:
  "remove_tooltips hid opn (d1 @ d2) = remove_tooltips hid opn d1 @ remove_tooltips hid opn d2"
  by (induction hid opn d1 rule: remove_tooltips.induct) auto

lemma remove_where_append:
  "remove_where P (d1 @ d2) = remove_where P d1 @ remove_where P d2"
  by (induction P d1 rule: remove_where.induct) auto

lemma cleanup_under_append:
  "cleanup_under hid opn (d1 @ d2) = cleanup_under hid opn d1 @ cleanup_under hid opn d2"
  by (simp add: cleanup_under_def remove_tooltips_append remove_where_append)

lemma cleanup_under_Nil: "cleanup_under hid opn [] = []"
  by (simp add: cleanup_under_def)

lemma cleanup_under_Cons:
  "cleanup_under hid opn (Element e ks # d) =
     (if janitor_removes hid opn e ks then cleanup_under hid opn d
      else Element e (cleanup_under (hid \<or> \<not> shown e) (opn \<or> is_open e) ks)
             # cleanup_under hid opn d)"
  by (simp add: cleanup_under_def janitor_removes_def)

text \<open>Under a node whose children have been given \<open>display: none\<close>, the first pass
  finds every descendant not laid out.\<close>

lemma hidden_children_tooltips:
  "remove_tooltips hid opn (set_children_display (CssText ''none'') ks) =
     set_children_display (CssText ''none'') (remove_tooltips True opn ks)"
proof (induction ks)
  case Nil
  then show ?case by simp
next
  case (Cons k ks)
  then show ?case
    by (cases k) (auto simp: is_tooltip_def is_open_def attr_def has_offsetParent_def shown_def)
qed

lemma remove_where_display:
  assumes "\<And>e k. P (e\<lparr>style_display := v\<rparr>) k = P e k"
  shows "remove_where P (set_children_display v ks) = set_children_display v (remove_where P ks)"
proof (induction ks)
  case Nil
  then show ?case by simp
next
  case (Cons k ks)
  then show ?case by (cases k) (simp_all add: assms)
qed

lemma hidden_children_cleanup:
  "cleanup_under hid opn (set_children_display (CssText ''none'') ks) =
     set_children_display (CssText ''none'') (cleanup_under True opn ks)"
proof -
  have a: "remove_where is_empty_style (set_children_display (CssText ''none'') d) =
      set_children_display (CssText ''none'') (remove_where is_empty_style d)" for d
    by (rule remove_where_display) (simp add: is_empty_style_def)
  have b: "remove_where is_orphan_overlay (set_children_display (CssText ''none'') d) =
      set_children_display (CssText ''none'') (remove_where is_orphan_overlay d)" for d
    by (rule remove_where_display) (simp add: is_orphan_overlay_def attr_def)
  show ?thesis
    by (simp add: cleanup_under_def hidden_children_tooltips a b)
qed

lemma janitor_removes_not_style:
  "tag e \<noteq> ''style'' \<Longrightarrow>
   janitor_removes hid opn e ks =
     ((is_tooltip e \<and> \<not> has_offsetParent hid e \<and> \<not> (opn \<or> is_open e)) \<or>
      attr e ''data-headlessui-state'' = Some [])"
  by (simp add: janitor_removes_def is_empty_style_def is_orphan_overlay_def)

lemma visit_attrs: "attrs (fst (visit w n i m)) = attrs (fst m)"
  by (simp add: visit_def Let_def split: option.split)

lemma virtualizeCheck_attrs: "map (\<lambda>m. attrs (fst m)) (virtualizeCheck w ms) = map (\<lambda>m. attrs (fst m)) ms"
  by (auto simp: virtualizeCheck_def visit_attrs list_eq_iff_nth_eq nth_enumerate_eq)

lemma overlays_all_removed:
  "list_all (\<lambda>a. map_of a ''data-headlessui-state'' = Some []) (map (\<lambda>m. attrs (fst m)) ms) \<Longrightarrow>
   cleanup_under hid opn (as_nodes ms) = []"
  by (induction ms)
     (auto simp: as_nodes_def cleanup_under_Nil cleanup_under_Cons janitor_removes_def
        is_orphan_overlay_def attr_def)

text \<open>
  C1, as stated, fails: the virtualizer sets no marker that the cleanup reads. In a
  document of ten turns that carry \<open>data-headlessui-state=""\<close>, the sweep of the
  virtualizer collapses the first turn, and the cleanup then removes it with all the
  others.
\<close>

theorem C1_counterexample:
  "getMessageContainers (as_nodes overlay_conversation) = overlay_conversation \<and>
   is_collapsed (fst (virtualizeCheck scrolled_down overlay_conversation ! 0)) \<and>
   cleanup (as_nodes (virtualizeCheck scrolled_down overlay_conversation)) = []"
proof -
  have g: "getMessageContainers (as_nodes overlay_conversation) = overlay_conversation"
    by (simp add: as_nodes_def overlay_conversation_def overlay_turn_def is_message_def attr_def
        mk_elem_def)
  have len: "length overlay_conversation = 10" by (simp add: overlay_conversation_def)
  have nth: "overlay_conversation ! 0 = overlay_turn 0" by (simp add: overlay_conversation_def)
  have far: "far_from_viewport scrolled_down (fst (overlay_turn 0))"
    by (simp add: far_from_viewport_def scrolled_down_def overlay_turn_def mk_elem_def
        VIEWPORT_MARGIN_def)
  have ex: "\<not> is_collapsed (fst (overlay_turn 0))"
    by (simp add: is_collapsed_def overlay_turn_def mk_elem_def)
  have "virtualizeCheck scrolled_down overlay_conversation ! 0
      = visit scrolled_down (length overlay_conversation) 0 (overlay_conversation ! 0)"
    by (rule virtualizeCheck_nth) (simp_all add: len)
  then have "virtualizeCheck scrolled_down overlay_conversation ! 0
      = visit scrolled_down 10 0 (fst (overlay_turn 0), snd (overlay_turn 0))"
    by (simp only: len nth prod.collapse)
  then have c: "is_collapsed (fst (virtualizeCheck scrolled_down overlay_conversation ! 0))"
    using visit_collapse [of 0 10 scrolled_down "fst (overlay_turn 0)" "snd (overlay_turn 0)"] far ex
    by (simp add: is_collapsed_def)
  have "list_all (\<lambda>a. map_of a ''data-headlessui-state'' = Some [])
      (map (\<lambda>m. attrs (fst m)) overlay_conversation)"
    by (simp add: overlay_conversation_def overlay_turn_def mk_elem_def)
  then have "cleanup (as_nodes (virtualizeCheck scrolled_down overlay_conversation)) = []"
    unfolding cleanup_def
    by (intro overlays_all_removed) (simp only: virtualizeCheck_attrs)
  with g c show ?thesis by simp
qed

text \<open>
  C1, amended: the virtualizer puts no marker on a Collapsed node for the cleanup to
  recognize. Collapsing changes the node's WeakMap entry and its inline height, overflow
  and visibility, which the cleanup's tests do not read, and sets \<open>display: none\<close> on
  its children, which makes every descendant not laid out. A sweep of the cleanup
  applies its tests to the Collapsed node itself as it finds it; for a node that is not
  a \<open>style\<close> element it removes the node exactly when it would remove the same node
  Expanded. Inside a Collapsed node that it keeps, the sweep works as on children that
  are all not laid out: it removes every tooltip and popper wrapper without an open
  ancestor or self, whether laid out before the collapse or not, besides empty \<open>style\<close>
  elements and elements with an empty \<open>data-headlessui-state\<close>.
\<close>

theorem C1_janitor_ignores_collapse:
  assumes "int i < int n - 3" and "far_from_viewport w e" and "\<not> is_collapsed e"
  shows "is_collapsed (fst (visit w n i (e, ks))) \<and>
    snd (visit w n i (e, ks)) = set_children_display (CssText ''none'') ks \<and>
    (tag e \<noteq> ''style'' \<longrightarrow>
       janitor_removes hid opn (fst (visit w n i (e, ks))) (snd (visit w n i (e, ks)))
         = janitor_removes hid opn e ks) \<and>
    cleanup_under hid opn (d1 @ Element (fst (visit w n i (e, ks))) (snd (visit w n i (e, ks))) # d2) =
      cleanup_under hid opn d1 @
      (if janitor_removes hid opn (fst (visit w n i (e, ks))) (snd (visit w n i (e, ks))) then []
       else [Element (fst (visit w n i (e, ks)))
               (set_children_display (CssText ''none'')
                  (cleanup_under True (opn \<or> is_open e) ks))]) @
      cleanup_under hid opn d2"
proof -
  let ?c = "e\<lparr>collapsedData := Some \<lparr>height = rect_height e, hidden = True\<rparr>,
        style_height := CssPx (rect_height e),
        style_overflow := CssText ''hidden'',
        style_visibility := CssText ''hidden''\<rparr>"
  let ?ks = "set_children_display (CssText ''none'') ks"
  have v: "visit w n i (e, ks) = (?c, ?ks)"
    using assms by (rule visit_collapse)
  have a: "is_collapsed ?c" by (simp add: is_collapsed_def)
  have own: "is_tooltip ?c = is_tooltip e" "has_offsetParent hid ?c = has_offsetParent hid e"
    "is_open ?c = is_open e" "shown ?c = shown e" "tag ?c = tag e"
    "attr ?c ''data-headlessui-state'' = attr e ''data-headlessui-state''"
    by (simp_all add: is_tooltip_def has_offsetParent_def is_open_def shown_def attr_def)
  have j: "tag e \<noteq> ''style'' \<longrightarrow> janitor_removes hid opn ?c ?ks = janitor_removes hid opn e ks"
    using own by (simp add: janitor_removes_not_style)
  have k: "cleanup_under (hid \<or> \<not> shown ?c) (opn \<or> is_open ?c) ?ks =
      set_children_display (CssText ''none'') (cleanup_under True (opn \<or> is_open e) ks)"
    unfolding own by (rule hidden_children_cleanup)
  have c: "cleanup_under hid opn (d1 @ Element ?c ?ks # d2) =
      cleanup_under hid opn d1 @
      (if janitor_removes hid opn ?c ?ks then []
       else [Element ?c (cleanup_under (hid \<or> \<not> shown ?c) (opn \<or> is_open ?c) ?ks)]) @
      cleanup_under hid opn d2"
    by (simp add: cleanup_under_append cleanup_under_Cons)
  show ?thesis
    unfolding v fst_conv snd_conv
    using a j c unfolding k by simp
qed

lemma cleanup_tipped_turn: "cleanup (as_nodes [tipped_turn]) = as_nodes [tipped_turn]"
  by (simp add: cleanup_def cleanup_under_def as_nodes_def tipped_turn_def turn_def mk_elem_def
      is_tooltip_def is_open_def is_empty_style_def is_orphan_overlay_def attr_def
      has_offsetParent_def shown_def)

text \<open>The theorem at a turn with a laid-out tooltip as its child: the cleanup keeps the
  tooltip while the turn is Expanded, and after the collapse it keeps the turn and
  removes the tooltip.\<close>

theorem C1_janitor_ignores_collapse_witness:
  "is_collapsed (fst (visit scrolled_down 10 0 tipped_turn)) \<and>
   cleanup (as_nodes [tipped_turn]) = as_nodes [tipped_turn] \<and>
   cleanup (as_nodes [visit scrolled_down 10 0 tipped_turn]) =
     [Element (fst (visit scrolled_down 10 0 tipped_turn)) []]"
proof -
  obtain e0 k0 where tt: "tipped_turn = (e0, k0)" by (cases tipped_turn)
  then have e0: "e0 = fst (turn 0)"
    and k0: "k0 = [Element (mk_elem 50 ''div'' [(''role'', ''tooltip'')]) []]"
    by (simp_all add: tipped_turn_def)
  have far: "far_from_viewport scrolled_down e0" unfolding e0 by (rule turn_far)
  have ex: "\<not> is_collapsed e0" unfolding e0 by (rule turn_expanded)
  have lt: "int 0 < int 10 - 3" by simp
  have ns: "tag e0 \<noteq> ''style''"
    by (simp add: e0 turn_def mk_elem_def)
  have keep: "\<not> janitor_removes False False e0 k0"
    by (simp add: janitor_removes_def is_empty_style_def is_orphan_overlay_def is_tooltip_def
        attr_def e0 k0 turn_def mk_elem_def)
  have kids: "cleanup_under True (is_open e0) k0 = []"
    by (simp add: cleanup_under_def e0 k0 turn_def mk_elem_def is_tooltip_def
        is_open_def attr_def has_offsetParent_def)
  note th = C1_janitor_ignores_collapse [OF lt far ex, of k0 False False "[]" "[]"]
  have c: "is_collapsed (fst (visit scrolled_down 10 0 (e0, k0)))"
    using th by blast
  have k: "\<not> janitor_removes False False (fst (visit scrolled_down 10 0 (e0, k0)))
      (snd (visit scrolled_down 10 0 (e0, k0)))"
    using th ns keep by blast
  have "cleanup_under False False
      ([] @ Element (fst (visit scrolled_down 10 0 (e0, k0)))
              (snd (visit scrolled_down 10 0 (e0, k0))) # []) =
      cleanup_under False False [] @
      (if janitor_removes False False (fst (visit scrolled_down 10 0 (e0, k0)))
            (snd (visit scrolled_down 10 0 (e0, k0))) then []
       else [Element (fst (visit scrolled_down 10 0 (e0, k0)))
               (set_children_display (CssText ''none'')
                  (cleanup_under True (False \<or> is_open e0) k0))]) @
      cleanup_under False False []"
    using th by blast
  then have "cleanup_under False False
      [Element (fst (visit scrolled_down 10 0 (e0, k0))) (snd (visit scrolled_down 10 0 (e0, k0)))] =
      [Element (fst (visit scrolled_down 10 0 (e0, k0))) []]"
    using k by (simp add: kids cleanup_under_Nil)
  then have "cleanup (as_nodes [visit scrolled_down 10 0 tipped_turn]) =
     [Element (fst (visit scrolled_down 10 0 tipped_turn)) []]"
    unfolding tt by (simp add: cleanup_def as_nodes_def split_beta)
  with c cleanup_tipped_turn show ?thesis unfolding tt by simp
qed

section \<open>Lazy code blocks: results\<close>

lemma elements_for_each: "elements (for_each_elem f d) = map f (elements d)"
  by (induction f d rule: for_each_elem.induct) auto

lemma attr_setAttribute: "attr (setAttribute n v e) n = Some v"
proof -
  have "map_of (set_attr n v as) n = Some v" for as
    by (induction n v as rule: set_attr.induct) auto
  then show ?thesis by (simp add: attr_def setAttribute_def)
qed

lemma register_pre_keeps: "nid (register_pre e) = nid e" "tag (register_pre e) = tag e"
  by (simp_all add: register_pre_def setAttribute_def)

lemma attr_style_update:
  "attr (e\<lparr>style_contentVisibility := a, style_containIntrinsicSize := b\<rparr>) n = attr e n"
  by (simp add: attr_def)

lemma register_pre_marked:
  assumes "tag e = ''pre''"
  shows "\<exists>y. attr (register_pre e) ''data-turbo-observed'' = Some y"
proof (cases "is_new_pre e")
  case True
  then show ?thesis
    by (simp add: register_pre_def attr_style_update attr_setAttribute)
next
  case False
  then show ?thesis
    using assms by (auto simp: register_pre_def is_new_pre_def)
qed

lemma new_pre_unregistered:
  assumes "keeps_markers reg d" and "e \<in> set (elements d)" and "is_new_pre e"
  shows "nid e \<notin> reg"
  using assms by (auto simp: keeps_markers_def list_all_iff is_new_pre_def)

lemma lazy_inv_rescan:
  assumes "lazy_inv s"
  shows "lazy_inv (observeCodeBlocks s)"
proof -
  let ?N = "nid ` set (filter is_new_pre (elements (page_document s)))"
  have fresh: "?N \<inter> registered s = {}"
    using assms new_pre_unregistered [of "registered s" "page_document s"]
    by (auto simp: lazy_inv_def)
  have km: "keeps_markers (registered s \<union> ?N) (for_each_elem register_pre (page_document s))"
    unfolding keeps_markers_def elements_for_each list_all_iff
    by (auto simp: register_pre_keeps register_pre_marked)
  have "set (enabled s) \<inter> ?N = {}"
    using fresh assms by (auto simp: lazy_inv_def)
  then show ?thesis
    using assms km by (auto simp: lazy_inv_def observeCodeBlocks_def Un_commute)
qed

lemma show_pre_keeps:
  "nid (show_pre k e) = nid e" "tag (show_pre k e) = tag e" "attr (show_pre k e) n = attr e n"
  by (simp_all add: show_pre_def attr_def)

lemma keeps_markers_show:
  "keeps_markers reg d \<Longrightarrow> keeps_markers reg (for_each_elem (show_pre k) d)"
  by (simp add: keeps_markers_def elements_for_each list_all_iff show_pre_keeps)

lemma enabled_on_intersection:
  "enabled (on_intersection ens s) = enabled s @ map entry_target (filter isIntersecting ens)"
  by (induction ens arbitrary: s) simp_all

lemma observed_on_intersection:
  "observed (on_intersection ens s) = observed s - set (map entry_target (filter isIntersecting ens))"
  by (induction ens arbitrary: s) auto

lemma registered_on_intersection: "registered (on_intersection ens s) = registered s"
  by (induction ens arbitrary: s) simp_all

lemma keeps_markers_on_intersection:
  "keeps_markers reg (page_document s) \<Longrightarrow> keeps_markers reg (page_document (on_intersection ens s))"
  by (induction ens arbitrary: s) (simp_all add: keeps_markers_show)

lemma lazy_inv_intersection:
  assumes "lazy_inv s" and "set (map entry_target ens) \<subseteq> observed s"
  shows "lazy_inv (on_intersection ens s)"
proof -
  let ?T = "set (map entry_target (filter isIntersecting ens))"
  have T: "?T \<subseteq> observed s" using assms(2) by auto
  have "set (enabled s) \<union> ?T \<subseteq> registered s"
    using assms(1) T by (auto simp: lazy_inv_def)
  moreover have "observed s - ?T \<subseteq> registered s"
    using assms(1) by (auto simp: lazy_inv_def)
  moreover have "(set (enabled s) \<union> ?T) \<inter> (observed s - ?T) = {}"
    using assms(1) by (auto simp: lazy_inv_def)
  moreover have "keeps_markers (registered s) (page_document (on_intersection ens s))"
    using assms(1) by (simp add: lazy_inv_def keeps_markers_on_intersection)
  ultimately show ?thesis
    by (simp add: lazy_inv_def enabled_on_intersection observed_on_intersection
        registered_on_intersection)
qed

lemma lazy_inv_step: "lazy_inv s \<Longrightarrow> lazy_step ev s = Some s' \<Longrightarrow> lazy_inv s'"
proof (cases ev)
  case (HostMutation d)
  assume "lazy_inv s" "lazy_step ev s = Some s'"
  with HostMutation show ?thesis by (auto simp: lazy_inv_def split: if_splits)
next
  case Rescan
  assume "lazy_inv s" "lazy_step ev s = Some s'"
  with Rescan show ?thesis by (auto simp: lazy_inv_rescan)
next
  case (Notify ens)
  assume "lazy_inv s" "lazy_step ev s = Some s'"
  with Notify show ?thesis by (auto simp: lazy_inv_intersection split: if_splits)
qed

lemma lazy_inv_run: "lazy_inv s \<Longrightarrow> lazy_run evs s = Some s' \<Longrightarrow> lazy_inv s'"
proof (induction evs arbitrary: s)
  case Nil
  then show ?case by simp
next
  case (Cons ev evs)
  then show ?case by (cases "lazy_step ev s") (auto dest: lazy_inv_step)
qed

lemma lazy_inv_init: "lazy_inv (lazy_init d)"
  by (simp add: lazy_inv_def lazy_init_def keeps_markers_def list_all_iff)

text \<open>Once the action has been performed for a code block, no later step performs it
  again.\<close>

lemma settled_step:
  assumes "lazy_inv s" and "k \<in> set (enabled s)" and "lazy_step ev s = Some s'"
  shows "count_list (enabled s') k = count_list (enabled s) k \<and> k \<in> set (enabled s')"
proof (cases ev)
  case (HostMutation d)
  with assms show ?thesis by (auto split: if_splits)
next
  case Rescan
  with assms show ?thesis by (auto simp: observeCodeBlocks_def)
next
  case (Notify ens)
  then have sub: "set (map entry_target ens) \<subseteq> observed s" and s': "s' = on_intersection ens s"
    using assms(3) by (auto split: if_splits)
  have "k \<notin> observed s" using assms(1,2) by (auto simp: lazy_inv_def)
  then have "k \<notin> set (map entry_target (filter isIntersecting ens))"
    using sub by auto
  then have "count_list (map entry_target (filter isIntersecting ens)) k = 0"
    by (simp add: count_list_0_iff)
  then show ?thesis
    using assms(2) by (simp add: s' enabled_on_intersection)
qed

lemma settled_run:
  "lazy_inv s \<Longrightarrow> k \<in> set (enabled s) \<Longrightarrow> lazy_run evs s = Some s' \<Longrightarrow>
   count_list (enabled s') k = count_list (enabled s) k"
proof (induction evs arbitrary: s)
  case Nil
  then show ?case by simp
next
  case (Cons ev evs)
  then obtain s1 where s1: "lazy_step ev s = Some s1" and r: "lazy_run evs s1 = Some s'"
    by (cases "lazy_step ev s") auto
  have "lazy_inv s1" using Cons.prems(1) s1 by (rule lazy_inv_step)
  moreover note st = settled_step [OF Cons.prems(1,2) s1]
  ultimately have "count_list (enabled s') k = count_list (enabled s1) k"
    using r by (intro Cons.IH) simp_all
  with st show ?case by simp
qed

text \<open>When no batch holds two intersecting entries for one target, the log has no
  repetition.\<close>

lemma distinct_step:
  assumes "lazy_inv s" and "distinct (enabled s)" and "lazy_step ev s = Some s'"
    and "single_entries [ev]"
  shows "distinct (enabled s')"
proof (cases ev)
  case (HostMutation d)
  with assms show ?thesis by (auto split: if_splits)
next
  case Rescan
  with assms show ?thesis by (auto simp: observeCodeBlocks_def)
next
  case (Notify ens)
  then have sub: "set (map entry_target ens) \<subseteq> observed s" and s': "s' = on_intersection ens s"
    using assms(3) by (auto split: if_splits)
  have d: "distinct (map entry_target (filter isIntersecting ens))"
    using assms(4) Notify by simp
  have "set (enabled s) \<inter> observed s = {}" using assms(1) by (simp add: lazy_inv_def)
  then have "set (enabled s) \<inter> set (map entry_target (filter isIntersecting ens)) = {}"
    using sub by auto
  then show ?thesis
    using assms(2) d by (simp add: s' enabled_on_intersection)
qed

lemma distinct_run:
  "lazy_inv s \<Longrightarrow> distinct (enabled s) \<Longrightarrow> single_entries evs \<Longrightarrow> lazy_run evs s = Some s' \<Longrightarrow>
   distinct (enabled s')"
proof (induction evs arbitrary: s)
  case Nil
  then show ?case by simp
next
  case (Cons ev evs)
  then obtain s1 where s1: "lazy_step ev s = Some s1" and r: "lazy_run evs s1 = Some s'"
    by (cases "lazy_step ev s") auto
  have one: "single_entries [ev]" and rest: "single_entries evs"
    using Cons.prems(3) by (cases ev; simp)+
  have "lazy_inv s1" using Cons.prems(1) s1 by (rule lazy_inv_step)
  moreover have "distinct (enabled s1)"
    using Cons.prems(1,2) s1 one by (rule distinct_step)
  ultimately show ?case using rest r by (rule Cons.IH)
qed

lemma distinct_count: "distinct xs \<Longrightarrow> count_list xs k \<le> 1"
  by (induction xs) (auto simp: count_list_0_iff)

lemma run_toggle_trace: "enable_log toggle_trace code_doc = Some [1, 1]"
  by (simp add: enable_log_def toggle_trace_def code_doc_def lazy_init_def observeCodeBlocks_def
      register_pre_def is_new_pre_def show_pre_def attr_def setAttribute_def mk_elem_def)

text \<open>
  C9, as stated, fails: the callback performs the rendering-enable action once for each
  intersecting entry it is handed and has no guard of its own. A code block whose
  visibility toggles in, out and in before the browser delivers the entries has the
  action performed twice by the one delivery.
\<close>

theorem C9_counterexample:
  "enable_log toggle_trace code_doc = Some [1, 1] \<and> \<not> (count_list [1, 1] (1::nat) \<le> 1)"
  by (simp add: run_toggle_trace)

text \<open>
  C9, amended: for every code block registered with the scheduler, a delivery of entries
  performs the rendering-enable action once for each intersecting entry of the batch.
  Once the action has been performed for a code block, the block is no longer observed,
  is not observed again by a rescan, is never selected again by
  \<open>pre:not([data-turbo-observed])\<close>, and no later step performs the action for it again,
  however often its visibility toggles and however often the document is rescanned. So
  the action is performed for it only in the delivery in which it first intersects, and
  at most once in all when no batch holds two intersecting entries for one target.
\<close>

theorem C9_enabled_once:
  assumes "lazy_run evs (lazy_init d) = Some s"
  shows "(\<forall>ens. enabled (on_intersection ens s) =
            enabled s @ map entry_target (filter isIntersecting ens)) \<and>
     (k \<in> set (enabled s) \<longrightarrow>
        k \<notin> observed s \<and> k \<notin> observed (observeCodeBlocks s) \<and>
        (\<forall>e \<in> set (elements (page_document s)). tag e = ''pre'' \<and> nid e = k \<longrightarrow> \<not> is_new_pre e) \<and>
        (\<forall>evs' s'. lazy_run evs' s = Some s' \<longrightarrow>
           count_list (enabled s') k = count_list (enabled s) k)) \<and>
     (single_entries evs \<longrightarrow> count_list (enabled s) k \<le> 1)"
proof -
  have iv: "lazy_inv s" using lazy_inv_init assms by (rule lazy_inv_run)
  then have iv': "lazy_inv (observeCodeBlocks s)" by (rule lazy_inv_rescan)
  have en: "enabled (observeCodeBlocks s) = enabled s" by (simp add: observeCodeBlocks_def)
  have a: "\<forall>ens. enabled (on_intersection ens s) =
            enabled s @ map entry_target (filter isIntersecting ens)"
    by (simp add: enabled_on_intersection)
  have b: "k \<in> set (enabled s) \<longrightarrow> k \<notin> observed s"
    using iv by (auto simp: lazy_inv_def)
  have c: "k \<in> set (enabled s) \<longrightarrow> k \<notin> observed (observeCodeBlocks s)"
    using iv' en by (auto simp: lazy_inv_def)
  have d: "k \<in> set (enabled s) \<longrightarrow>
      (\<forall>e \<in> set (elements (page_document s)). tag e = ''pre'' \<and> nid e = k \<longrightarrow> \<not> is_new_pre e)"
    using iv by (auto simp: lazy_inv_def keeps_markers_def list_all_iff is_new_pre_def)
  have e: "k \<in> set (enabled s) \<longrightarrow>
      (\<forall>evs' s'. lazy_run evs' s = Some s' \<longrightarrow>
           count_list (enabled s') k = count_list (enabled s) k)"
    using iv by (auto intro: settled_run)
  have f: "single_entries evs \<longrightarrow> count_list (enabled s) k \<le> 1"
  proof
    assume "single_entries evs"
    then have "distinct (enabled s)"
      using lazy_inv_init [of d] assms by (intro distinct_run [of "lazy_init d" evs s]) (simp_all add: lazy_init_def)
    then show "count_list (enabled s) k \<le> 1" by (rule distinct_count)
  qed
  from a b c d e f show ?thesis by blast
qed

lemma run_code_trace: "lazy_run code_trace (lazy_init code_doc) = Some code_end"
  by (simp add: code_trace_def code_doc_def code_end_def lazy_init_def observeCodeBlocks_def
      register_pre_def is_new_pre_def show_pre_def attr_def setAttribute_def mk_elem_def)

text \<open>The theorem at one code block that leaves the margin, enters it and is rescanned.\<close>

theorem C9_enabled_once_witness:
  "lazy_run code_trace (lazy_init code_doc) = Some code_end \<and> enabled code_end = [1] \<and>
   single_entries code_trace \<and> count_list (enabled code_end) 1 \<le> 1 \<and>
   1 \<notin> observed code_end \<and> 1 \<notin> observed (observeCodeBlocks code_end) \<and>
   enabled (on_intersection [\<lparr>entry_target = 1, isIntersecting = True\<rparr>] code_end) = [1, 1]"
proof -
  have e: "enabled code_end = [1]" by (simp add: code_end_def)
  then have m: "1 \<in> set (enabled code_end)" by simp
  have s: "single_entries code_trace" by (simp add: code_trace_def)
  note th = C9_enabled_once [OF run_code_trace, of 1]
  have "count_list (enabled code_end) 1 \<le> 1" using th s by blast
  moreover have "1 \<notin> observed code_end \<and> 1 \<notin> observed (observeCodeBlocks code_end)"
    using th m by blast
  moreover have "enabled (on_intersection [\<lparr>entry_target = 1, isIntersecting = True\<rparr>] code_end)
      = enabled code_end @ map entry_target (filter isIntersecting [\<lparr>entry_target = 1, isIntersecting = True\<rparr>])"
    using th by blast
  ultimately show ?thesis
    using run_code_trace e s by simp
qed

section \<open>Memory management: results\<close>

lemma aggressiveCleanup_document:
  "document (aggressiveCleanup now mem s) = clear_blob_images (document s)"
  by (simp add: aggressiveCleanup_def Let_def split: option.split)

lemma aggressiveCleanup_lastCleanup: "lastCleanup (aggressiveCleanup now mem s) = now"
  by (simp add: aggressiveCleanup_def Let_def split: option.split)

lemma aggressiveCleanup_console:
  "console (aggressiveCleanup now mem s) =
     (case mem of None \<Rightarrow> console s
      | Some m \<Rightarrow> if high_usage m then console s @ [high_memory_msg] else console s)"
  by (simp add: aggressiveCleanup_def Let_def split: option.split)

lemma blob_img_cleared:
  "clear_blob_images [Element blob_img []] =
     [Element (blob_img\<lparr>attrs := [(''src'', [])]\<rparr>) []]"
  by (simp add: clear_blob_images_def clear_img_def is_blob_img_def attr_def blob_img_def
      mk_elem_def setAttribute_def has_offsetParent_def)

text \<open>
  C3, as stated, fails: the mitigation pass is not conditional on the heap ratio. With a
  sampled ratio of 0.5 (below the threshold) the interval trigger still clears the
  \<open>src\<close> of the detached blob image.
\<close>

theorem C3_counterexample:
  "\<not> high_usage \<lparr>usedJSHeapSize = 50, totalJSHeapSize = 100\<rparr> \<and>
   document (on_interval 120000 (Some \<lparr>usedJSHeapSize = 50, totalJSHeapSize = 100\<rparr>) blob_state)
     \<noteq> document blob_state"
proof -
  have "document (on_interval 120000 (Some \<lparr>usedJSHeapSize = 50, totalJSHeapSize = 100\<rparr>) blob_state)
      = [Element (blob_img\<lparr>attrs := [(''src'', [])]\<rparr>) []]"
    by (simp add: on_interval_def aggressiveCleanup_document blob_img_cleared blob_state_def)
  moreover have "blob_img\<lparr>attrs := [(''src'', [])]\<rparr> \<noteq> blob_img"
    by (simp add: blob_img_def mk_elem_def)
  ultimately show ?thesis
    by (simp add: high_usage_def blob_state_def)
qed

text \<open>
  C3, amended: the interval trigger, and a hidden-state trigger more than 60000 ms after
  the last cleanup, always perform the mitigation pass and record the time, whatever the
  heap sample is; the sample decides only whether the high-memory line is logged (exactly
  when the capability is present and used/total exceeds 0.8). A \<open>visibilitychange\<close>
  that is not hidden, or that comes 60000 ms or less after the last cleanup, changes
  nothing.
\<close>

theorem C3_mitigation_unconditional:
  "document (on_interval now mem s) = clear_blob_images (document s) \<and>
   lastCleanup (on_interval now mem s) = now \<and>
   (now - lastCleanup s > 60000 \<longrightarrow>
      document (on_visibilitychange True now mem s) = clear_blob_images (document s) \<and>
      lastCleanup (on_visibilitychange True now mem s) = now) \<and>
   (now - lastCleanup s \<le> 60000 \<longrightarrow> on_visibilitychange True now mem s = s) \<and>
   on_visibilitychange False now mem s = s \<and>
   (console (on_interval now mem s) = console s @ [high_memory_msg]
      \<longleftrightarrow> (\<exists>m. mem = Some m \<and> high_usage m))"
  by (auto simp: on_interval_def on_visibilitychange_def aggressiveCleanup_document
      aggressiveCleanup_lastCleanup aggressiveCleanup_console split: option.splits)

theorem C3_mitigation_unconditional_witness:
  "document (on_visibilitychange True 60001 (Some \<lparr>usedJSHeapSize = 85, totalJSHeapSize = 100\<rparr>) blob_state)
     = [Element (blob_img\<lparr>attrs := [(''src'', [])]\<rparr>) []] \<and>
   on_visibilitychange True 60000 (Some \<lparr>usedJSHeapSize = 85, totalJSHeapSize = 100\<rparr>) blob_state
     = blob_state \<and>
   console (on_interval 120000 (Some \<lparr>usedJSHeapSize = 85, totalJSHeapSize = 100\<rparr>) blob_state)
     = [high_memory_msg]"
  using C3_mitigation_unconditional [of 60001 "Some \<lparr>usedJSHeapSize = 85, totalJSHeapSize = 100\<rparr>" blob_state]
    C3_mitigation_unconditional [of 60000 "Some \<lparr>usedJSHeapSize = 85, totalJSHeapSize = 100\<rparr>" blob_state]
    C3_mitigation_unconditional [of 120000 "Some \<lparr>usedJSHeapSize = 85, totalJSHeapSize = 100\<rparr>" blob_state]
  by (simp add: blob_state_def blob_img_cleared high_usage_def)

text \<open>
  C4, as stated, fails: without \<open>performance.memory\<close> the interval trigger still
  rewrites the document (the detached blob image loses its \<open>src\<close>).
\<close>

theorem C4_counterexample:
  "document (on_interval 120000 None blob_state) \<noteq> document blob_state"
proof -
  have "document (on_interval 120000 None blob_state)
      = [Element (blob_img\<lparr>attrs := [(''src'', [])]\<rparr>) []]"
    by (simp add: on_interval_def aggressiveCleanup_document blob_img_cleared blob_state_def)
  moreover have "blob_img\<lparr>attrs := [(''src'', [])]\<rparr> \<noteq> blob_img"
    by (simp add: blob_img_def mk_elem_def)
  ultimately show ?thesis
    by (simp add: blob_state_def)
qed

text \<open>
  C4, amended: without the heap capability the monitor skips only the heap sample and
  its log line; it still performs the mitigation pass and records the time, exactly as
  it does with the capability present, and it returns normally (the model is a total
  function with no error result, as no statement of the source can throw).
\<close>

theorem C4_no_heap_capability:
  "console (on_interval now None s) = console s \<and>
   document (on_interval now None s) = clear_blob_images (document s) \<and>
   lastCleanup (on_interval now None s) = now \<and>
   document (on_interval now None s) = document (on_interval now (Some m) s)"
  by (simp add: on_interval_def aggressiveCleanup_document aggressiveCleanup_lastCleanup
      aggressiveCleanup_console)

end
